theory Spec2Isabelle
  imports Complex_Main
begin

section \<open>Password presets: the actions of \<^verbatim>\<open>src/actions/index.ts\<close>\<close>

text \<open>
  The five actions of the module are embedded as functions over an explicit store.
  Each action is the composition that \<^verbatim>\<open>defineAction\<close> builds: the declared input
  schema is run on the raw input first, and only a parsed input reaches the handler.
  A thrown \<^verbatim>\<open>ActionError\<close> is the left summand of the result; the store reached at
  that point is returned beside it.

  What is taken from outside the module:
  \<^item> a JavaScript number is a rational, an infinity or \<open>NaN\<close>; a \<^verbatim>\<open>Date\<close> is its
    count of milliseconds;
  \<^item> a raw input is an object whose keys may be missing, each present key holding a
    value of the schema's base type;
  \<^item> the results of \<^verbatim>\<open>crypto.randomUUID()\<close> and \<^verbatim>\<open>new Date()\<close> are read from an
    environment record;
  \<^item> a table is the list of its rows in insertion order, each row as it was written.
    An insert is refused when the primary key is already present, or when the
    \<^verbatim>\<open>presetId\<close> it carries is not the id of a preset (the foreign key that the
    schema declares on \<^verbatim>\<open>GeneratedPasswords.presetId\<close>);
  \<^item> the database client binds finite numbers only, and every row that a select or a
    \<^verbatim>\<open>.returning()\<close> hands back is the stored row as the client reads it: see the
    store's primitives;
  \<^item> the store also records which statements were issued, so that "no lookup was
    made" is a statement about the store.
\<close>

subsection \<open>Data model\<close>

datatype number = Finite rat | PosInfinity | NegInfinity | NaN

type_synonym date = int

datatype error = UNAUTHORIZED | NOT_FOUND | ValidationError | ConstraintError | RangeError

text \<open>A row of \<^verbatim>\<open>PasswordPresets\<close>; every field carries the prefix \<open>p_\<close>.\<close>

record preset =
  p_id :: string
  p_userId :: string
  p_name :: string
  p_length :: number
  p_includeLowercase :: bool
  p_includeUppercase :: bool
  p_includeNumbers :: bool
  p_includeSymbols :: bool
  p_excludeSimilar :: bool
  p_customSymbols :: "string option"
  p_notes :: "string option"
  p_isDefault :: bool
  p_createdAt :: date
  p_updatedAt :: date

text \<open>A row of \<^verbatim>\<open>GeneratedPasswords\<close>; every field carries the prefix \<open>g_\<close>.\<close>

record password =
  g_id :: string
  g_userId :: string
  g_presetId :: "string option"
  g_encryptedValue :: "string option"
  g_hintLabel :: "string option"
  g_length :: "number option"
  g_wasCopied :: bool
  g_lastCopiedAt :: "date option"
  g_createdAt :: date

datatype table_name = PasswordPresetsT | GeneratedPasswordsT

datatype statement = Select table_name | Insert table_name | Update table_name

record db =
  PasswordPresets :: "preset list"
  GeneratedPasswords :: "password list"
  issued :: "statement list"

record user =
  user_id :: string

record locals =
  user :: "user option"

record api_context =
  locals :: "locals option"

record env =
  randomUUID :: string
  now :: date

subsection \<open>The store's primitives\<close>

definition issue :: "statement \<Rightarrow> db \<Rightarrow> db" where
  "issue st s = s\<lparr>issued := issued s @ [st]\<rparr>"

text \<open>\<^verbatim>\<open>and(...filters)\<close>: a row passes when it passes every filter.\<close>

definition and_filters :: "('r \<Rightarrow> bool) list \<Rightarrow> 'r \<Rightarrow> bool" where
  "and_filters fs r = list_all (\<lambda>f. f r) fs"

text \<open>
  Binding an argument: the client accepts a number only when it is finite, and throws
  a \<^verbatim>\<open>RangeError\<close> before the statement is sent otherwise.
\<close>

fun bindable :: "number \<Rightarrow> bool" where
  "bindable (Finite q) = True"
| "bindable PosInfinity = False"
| "bindable NegInfinity = False"
| "bindable NaN = False"

text \<open>
  A number column has integer affinity: a bound number that is an integer within the
  64-bit range is stored as an integer, any other as a float. Reading a row, the
  client throws a \<^verbatim>\<open>RangeError\<close> on a stored integer beyond
  \<^verbatim>\<open>Number.MAX_SAFE_INTEGER\<close> (\<open>2\<^sup>5\<^sup>3 - 1\<close>) in magnitude.
\<close>

definition MAX_SAFE_INTEGER :: rat where
  "MAX_SAFE_INTEGER = 9007199254740991"

definition stored_as_integer :: "rat \<Rightarrow> bool" where
  "stored_as_integer q =
     (of_int \<lfloor>q\<rfloor> = q \<and> - 9223372036854775808 < q \<and> q < 9223372036854775808)"

fun readable :: "number \<Rightarrow> bool" where
  "readable (Finite q) = (\<not> stored_as_integer q \<or> \<bar>q\<bar> \<le> MAX_SAFE_INTEGER)"
| "readable PosInfinity = True"
| "readable NegInfinity = True"
| "readable NaN = True"

text \<open>
  Reading a text column of free text, the client hands back the text up to its first
  \<open>U+0000\<close>. The id and owner columns hold identifiers issued by the platform (a
  UUID, the session's user id, the id of an existing preset), which contain no
  \<open>U+0000\<close>; they are read back as stored.
\<close>

definition cut_at_nul :: "string \<Rightarrow> string" where
  "cut_at_nul t = takeWhile (\<lambda>c. c \<noteq> CHR 0x00) t"

definition preset_as_read :: "preset \<Rightarrow> preset" where
  "preset_as_read row =
     row\<lparr>p_name := cut_at_nul (p_name row),
         p_customSymbols := map_option cut_at_nul (p_customSymbols row),
         p_notes := map_option cut_at_nul (p_notes row)\<rparr>"

definition password_as_read :: "password \<Rightarrow> password" where
  "password_as_read row =
     row\<lparr>g_encryptedValue := map_option cut_at_nul (g_encryptedValue row),
         g_hintLabel := map_option cut_at_nul (g_hintLabel row)\<rparr>"

definition read_preset :: "preset \<Rightarrow> error + preset" where
  "read_preset row =
     (if readable (p_length row) then Inr (preset_as_read row) else Inl RangeError)"

definition read_password :: "password \<Rightarrow> error + password" where
  "read_password row =
     (if (case g_length row of None \<Rightarrow> True | Some n \<Rightarrow> readable n)
      then Inr (password_as_read row)
      else Inl RangeError)"

fun read_rows :: "('r \<Rightarrow> error + 'r) \<Rightarrow> 'r list \<Rightarrow> error + 'r list" where
  "read_rows rd [] = Inr []"
| "read_rows rd (x # xs) =
     (case rd x of
        Inl err \<Rightarrow> Inl err
      | Inr y \<Rightarrow> (case read_rows rd xs of Inl err \<Rightarrow> Inl err | Inr ys \<Rightarrow> Inr (y # ys)))"

text \<open>
  \<^verbatim>\<open>select().from(T).where(cond)\<close>: the rows that pass the filter, as the client
  reads them.
\<close>

definition select_presets ::
  "(preset \<Rightarrow> bool) \<Rightarrow> db \<Rightarrow> (error + preset list) \<times> db" where
  "select_presets cond s =
     (read_rows read_preset (filter cond (PasswordPresets s)),
      issue (Select PasswordPresetsT) s)"

definition select_passwords ::
  "(password \<Rightarrow> bool) \<Rightarrow> db \<Rightarrow> (error + password list) \<times> db" where
  "select_passwords cond s =
     (read_rows read_password (filter cond (GeneratedPasswords s)),
      issue (Select GeneratedPasswordsT) s)"

text \<open>
  \<^verbatim>\<open>insert(T).values(row).returning()\<close>: the arguments are bound, the constraints
  are checked, the row is written, and the written row is read back. A failure to
  read it back comes after the write.
\<close>

definition insert_preset :: "preset \<Rightarrow> db \<Rightarrow> (error + preset list) \<times> db" where
  "insert_preset row s =
     (if \<not> bindable (p_length row) then (Inl RangeError, s)
      else
        let s1 = issue (Insert PasswordPresetsT) s in
        if p_id row \<in> set (map p_id (PasswordPresets s)) then (Inl ConstraintError, s1)
        else
          let s2 = s1\<lparr>PasswordPresets := PasswordPresets s @ [row]\<rparr> in
          (case read_rows read_preset [row] of
             Inl err \<Rightarrow> (Inl err, s2)
           | Inr rows \<Rightarrow> (Inr rows, s2)))"

definition insert_password :: "password \<Rightarrow> db \<Rightarrow> (error + password list) \<times> db" where
  "insert_password row s =
     (if \<not> (case g_length row of None \<Rightarrow> True | Some n \<Rightarrow> bindable n)
      then (Inl RangeError, s)
      else
        let s1 = issue (Insert GeneratedPasswordsT) s in
        if g_id row \<in> set (map g_id (GeneratedPasswords s)) then (Inl ConstraintError, s1)
        else if \<not> (case g_presetId row of
                      None \<Rightarrow> True
                    | Some pid \<Rightarrow> pid \<in> set (map p_id (PasswordPresets s)))
        then (Inl ConstraintError, s1)
        else
          let s2 = s1\<lparr>GeneratedPasswords := GeneratedPasswords s @ [row]\<rparr> in
          (case read_rows read_password [row] of
             Inl err \<Rightarrow> (Inl err, s2)
           | Inr rows \<Rightarrow> (Inr rows, s2)))"

text \<open>
  \<^verbatim>\<open>update(T).set(f).where(cond).returning()\<close>, with the numbers that the set object
  binds: the rows are updated, and the updated rows are read back.
\<close>

definition update_presets ::
  "number list \<Rightarrow> (preset \<Rightarrow> preset) \<Rightarrow> (preset \<Rightarrow> bool) \<Rightarrow> db \<Rightarrow>
     (error + preset list) \<times> db" where
  "update_presets bound f cond s =
     (if \<not> list_all bindable bound then (Inl RangeError, s)
      else
        let s1 = (issue (Update PasswordPresetsT) s)
                   \<lparr>PasswordPresets :=
                      map (\<lambda>p. if cond p then f p else p) (PasswordPresets s)\<rparr> in
        (case read_rows read_preset (map f (filter cond (PasswordPresets s))) of
           Inl err \<Rightarrow> (Inl err, s1)
         | Inr rows \<Rightarrow> (Inr rows, s1)))"

text \<open>The destructuring \<^verbatim>\<open>const [x] = rows\<close>: the first row, or \<^verbatim>\<open>undefined\<close>.\<close>

definition first_row :: "'r list \<Rightarrow> 'r option" where
  "first_row rows = (case rows of [] \<Rightarrow> None | r # _ \<Rightarrow> Some r)"

text \<open>
  JavaScript truthiness of a string: every string but the empty one. A missing key
  (\<^verbatim>\<open>undefined\<close>) is falsy; the handlers below treat it in the \<open>None\<close> branch.
\<close>

definition truthy :: "string \<Rightarrow> bool" where
  "truthy t = (t \<noteq> [])"

text \<open>
  The checks of the schemas on numbers: \<^verbatim>\<open>z.number()\<close> accepts every number but
  \<open>NaN\<close>, \<^verbatim>\<open>.int()\<close> is \<^verbatim>\<open>Number.isInteger\<close>, and \<^verbatim>\<open>.min(m)\<close> compares.
\<close>

fun z_number :: "number \<Rightarrow> bool" where
  "z_number (Finite q) = True"
| "z_number PosInfinity = True"
| "z_number NegInfinity = True"
| "z_number NaN = False"

fun is_integer :: "number \<Rightarrow> bool" where
  "is_integer (Finite q) = (of_int \<lfloor>q\<rfloor> = q)"
| "is_integer PosInfinity = False"
| "is_integer NegInfinity = False"
| "is_integer NaN = False"

fun at_least :: "rat \<Rightarrow> number \<Rightarrow> bool" where
  "at_least m (Finite q) = (m \<le> q)"
| "at_least m PosInfinity = True"
| "at_least m NegInfinity = False"
| "at_least m NaN = False"

subsection \<open>Session guard and ownership lookup\<close>

definition requireUser :: "api_context \<Rightarrow> error + user" where
  "requireUser ctx =
     (case (case locals ctx of None \<Rightarrow> None | Some l \<Rightarrow> user l) of
        None \<Rightarrow> Inl UNAUTHORIZED
      | Some u \<Rightarrow> Inr u)"

definition getOwnedPreset :: "string \<Rightarrow> string \<Rightarrow> db \<Rightarrow> (error + preset) \<times> db" where
  "getOwnedPreset presetId userId s =
     (case select_presets
             (and_filters [\<lambda>p. p_id p = presetId, \<lambda>p. p_userId p = userId]) s of
        (Inl err, s1) \<Rightarrow> (Inl err, s1)
      | (Inr rows, s1) \<Rightarrow>
          (case first_row rows of
             None \<Rightarrow> (Inl NOT_FOUND, s1)
           | Some preset \<Rightarrow> (Inr preset, s1)))"

subsection \<open>createPreset\<close>

record createPreset_raw =
  cr_name :: "string option"
  cr_length :: "number option"
  cr_includeLowercase :: "bool option"
  cr_includeUppercase :: "bool option"
  cr_includeNumbers :: "bool option"
  cr_includeSymbols :: "bool option"
  cr_excludeSimilar :: "bool option"
  cr_customSymbols :: "string option"
  cr_notes :: "string option"
  cr_isDefault :: "bool option"

record createPreset_input =
  c_name :: string
  c_length :: number
  c_includeLowercase :: bool
  c_includeUppercase :: bool
  c_includeNumbers :: bool
  c_includeSymbols :: bool
  c_excludeSimilar :: bool
  c_customSymbols :: "string option"
  c_notes :: "string option"
  c_isDefault :: "bool option"

definition with_default :: "'a \<Rightarrow> 'a option \<Rightarrow> 'a" where
  "with_default d v = (case v of None \<Rightarrow> d | Some x \<Rightarrow> x)"

definition createPreset_schema :: "createPreset_raw \<Rightarrow> error + createPreset_input" where
  "createPreset_schema raw =
     (case cr_name raw of
        None \<Rightarrow> Inl ValidationError
      | Some nm \<Rightarrow>
          (case cr_length raw of
             None \<Rightarrow> Inl ValidationError
           | Some len \<Rightarrow>
               if length nm < 1 \<or> \<not> z_number len \<or> \<not> is_integer len \<or> \<not> at_least 4 len
               then Inl ValidationError
               else Inr \<lparr>c_name = nm, c_length = len,
                         c_includeLowercase = with_default True (cr_includeLowercase raw),
                         c_includeUppercase = with_default True (cr_includeUppercase raw),
                         c_includeNumbers = with_default True (cr_includeNumbers raw),
                         c_includeSymbols = with_default True (cr_includeSymbols raw),
                         c_excludeSimilar = with_default False (cr_excludeSimilar raw),
                         c_customSymbols = cr_customSymbols raw,
                         c_notes = cr_notes raw,
                         c_isDefault = cr_isDefault raw\<rparr>))"

definition createPreset_handler ::
  "createPreset_input \<Rightarrow> api_context \<Rightarrow> env \<Rightarrow> db \<Rightarrow> (error + preset option) \<times> db" where
  "createPreset_handler input ctx e s =
     (case requireUser ctx of
        Inl err \<Rightarrow> (Inl err, s)
      | Inr u \<Rightarrow>
          (case insert_preset
                  \<lparr>p_id = randomUUID e, p_userId = user_id u,
                   p_name = c_name input, p_length = c_length input,
                   p_includeLowercase = c_includeLowercase input,
                   p_includeUppercase = c_includeUppercase input,
                   p_includeNumbers = c_includeNumbers input,
                   p_includeSymbols = c_includeSymbols input,
                   p_excludeSimilar = c_excludeSimilar input,
                   p_customSymbols = c_customSymbols input,
                   p_notes = c_notes input,
                   p_isDefault = with_default False (c_isDefault input),
                   p_createdAt = now e, p_updatedAt = now e\<rparr> s of
             (Inl err, s1) \<Rightarrow> (Inl err, s1)
           | (Inr rows, s1) \<Rightarrow> (Inr (first_row rows), s1)))"

definition createPreset ::
  "createPreset_raw \<Rightarrow> api_context \<Rightarrow> env \<Rightarrow> db \<Rightarrow> (error + preset option) \<times> db" where
  "createPreset raw ctx e s =
     (case createPreset_schema raw of
        Inl err \<Rightarrow> (Inl err, s)
      | Inr input \<Rightarrow> createPreset_handler input ctx e s)"

subsection \<open>updatePreset\<close>

record updatePreset_raw =
  ur_id :: "string option"
  ur_name :: "string option"
  ur_length :: "number option"
  ur_includeLowercase :: "bool option"
  ur_includeUppercase :: "bool option"
  ur_includeNumbers :: "bool option"
  ur_includeSymbols :: "bool option"
  ur_excludeSimilar :: "bool option"
  ur_customSymbols :: "string option"
  ur_notes :: "string option"
  ur_isDefault :: "bool option"

record updatePreset_input =
  u_id :: string
  u_name :: "string option"
  u_length :: "number option"
  u_includeLowercase :: "bool option"
  u_includeUppercase :: "bool option"
  u_includeNumbers :: "bool option"
  u_includeSymbols :: "bool option"
  u_excludeSimilar :: "bool option"
  u_customSymbols :: "string option"
  u_notes :: "string option"
  u_isDefault :: "bool option"

text \<open>The predicate handed to \<^verbatim>\<open>.refine\<close>: some field besides the id is defined.\<close>

definition refine_pred :: "updatePreset_input \<Rightarrow> bool" where
  "refine_pred input =
     (u_name input \<noteq> None \<or> u_length input \<noteq> None \<or>
      u_includeLowercase input \<noteq> None \<or> u_includeUppercase input \<noteq> None \<or>
      u_includeNumbers input \<noteq> None \<or> u_includeSymbols input \<noteq> None \<or>
      u_excludeSimilar input \<noteq> None \<or> u_customSymbols input \<noteq> None \<or>
      u_notes input \<noteq> None \<or> u_isDefault input \<noteq> None)"

definition updatePreset_object :: "updatePreset_raw \<Rightarrow> error + updatePreset_input" where
  "updatePreset_object raw =
     (case ur_id raw of
        None \<Rightarrow> Inl ValidationError
      | Some i \<Rightarrow>
          if length i < 1 then Inl ValidationError
          else if (case ur_length raw of
                     None \<Rightarrow> False
                   | Some len \<Rightarrow> \<not> z_number len \<or> \<not> is_integer len \<or> \<not> at_least 4 len)
          then Inl ValidationError
          else Inr \<lparr>u_id = i, u_name = ur_name raw, u_length = ur_length raw,
                    u_includeLowercase = ur_includeLowercase raw,
                    u_includeUppercase = ur_includeUppercase raw,
                    u_includeNumbers = ur_includeNumbers raw,
                    u_includeSymbols = ur_includeSymbols raw,
                    u_excludeSimilar = ur_excludeSimilar raw,
                    u_customSymbols = ur_customSymbols raw,
                    u_notes = ur_notes raw,
                    u_isDefault = ur_isDefault raw\<rparr>)"

definition updatePreset_schema :: "updatePreset_raw \<Rightarrow> error + updatePreset_input" where
  "updatePreset_schema raw =
     (case updatePreset_object raw of
        Inl err \<Rightarrow> Inl err
      | Inr input \<Rightarrow> if refine_pred input then Inr input else Inl ValidationError)"

text \<open>
  The object handed to \<^verbatim>\<open>.set\<close>: a column is assigned when its input field is
  defined, and \<^verbatim>\<open>updatedAt\<close> always.
\<close>

definition set_values :: "updatePreset_input \<Rightarrow> date \<Rightarrow> preset \<Rightarrow> preset" where
  "set_values input d p =
     p\<lparr>p_name := with_default (p_name p) (u_name input),
       p_length := with_default (p_length p) (u_length input),
       p_includeLowercase := with_default (p_includeLowercase p) (u_includeLowercase input),
       p_includeUppercase := with_default (p_includeUppercase p) (u_includeUppercase input),
       p_includeNumbers := with_default (p_includeNumbers p) (u_includeNumbers input),
       p_includeSymbols := with_default (p_includeSymbols p) (u_includeSymbols input),
       p_excludeSimilar := with_default (p_excludeSimilar p) (u_excludeSimilar input),
       p_customSymbols :=
         (case u_customSymbols input of None \<Rightarrow> p_customSymbols p | Some v \<Rightarrow> Some v),
       p_notes := (case u_notes input of None \<Rightarrow> p_notes p | Some v \<Rightarrow> Some v),
       p_isDefault := with_default (p_isDefault p) (u_isDefault input),
       p_updatedAt := d\<rparr>"

definition updatePreset_handler ::
  "updatePreset_input \<Rightarrow> api_context \<Rightarrow> env \<Rightarrow> db \<Rightarrow> (error + preset option) \<times> db" where
  "updatePreset_handler input ctx e s =
     (case requireUser ctx of
        Inl err \<Rightarrow> (Inl err, s)
      | Inr u \<Rightarrow>
          (case getOwnedPreset (u_id input) (user_id u) s of
             (Inl err, s1) \<Rightarrow> (Inl err, s1)
           | (Inr owned, s1) \<Rightarrow>
               (case update_presets
                       (case u_length input of None \<Rightarrow> [] | Some n \<Rightarrow> [n])
                       (set_values input (now e)) (\<lambda>p. p_id p = u_id input) s1 of
                  (Inl err, s2) \<Rightarrow> (Inl err, s2)
                | (Inr rows, s2) \<Rightarrow> (Inr (first_row rows), s2))))"

definition updatePreset ::
  "updatePreset_raw \<Rightarrow> api_context \<Rightarrow> env \<Rightarrow> db \<Rightarrow> (error + preset option) \<times> db" where
  "updatePreset raw ctx e s =
     (case updatePreset_schema raw of
        Inl err \<Rightarrow> (Inl err, s)
      | Inr input \<Rightarrow> updatePreset_handler input ctx e s)"

subsection \<open>listPresets\<close>

record listPresets_raw =
  lr_defaultsOnly :: "bool option"

record listPresets_input =
  defaultsOnly :: bool

record 'r listing =
  items :: "'r list"
  total :: nat

definition listPresets_schema :: "listPresets_raw \<Rightarrow> error + listPresets_input" where
  "listPresets_schema raw = Inr \<lparr>defaultsOnly = with_default False (lr_defaultsOnly raw)\<rparr>"

definition listPresets_handler ::
  "listPresets_input \<Rightarrow> api_context \<Rightarrow> db \<Rightarrow> (error + preset listing) \<times> db" where
  "listPresets_handler input ctx s =
     (case requireUser ctx of
        Inl err \<Rightarrow> (Inl err, s)
      | Inr u \<Rightarrow>
          (let filters = [\<lambda>p. p_userId p = user_id u];
               filters = (if defaultsOnly input then filters @ [\<lambda>p. p_isDefault p = True]
                          else filters)
           in case select_presets (and_filters filters) s of
                (Inl err, s1) \<Rightarrow> (Inl err, s1)
              | (Inr presets, s1) \<Rightarrow>
                  (Inr \<lparr>items = presets, total = length presets\<rparr>, s1)))"

definition listPresets ::
  "listPresets_raw \<Rightarrow> api_context \<Rightarrow> db \<Rightarrow> (error + preset listing) \<times> db" where
  "listPresets raw ctx s =
     (case listPresets_schema raw of
        Inl err \<Rightarrow> (Inl err, s)
      | Inr input \<Rightarrow> listPresets_handler input ctx s)"

subsection \<open>logGeneratedPassword\<close>

text \<open>
  Every key of the schema is optional and none has a default, so an accepted input is
  parsed to itself; the one check is that of \<^verbatim>\<open>z.number()\<close> on the length.
\<close>

record logGeneratedPassword_input =
  l_presetId :: "string option"
  l_encryptedValue :: "string option"
  l_hintLabel :: "string option"
  l_length :: "number option"
  l_wasCopied :: "bool option"
  l_lastCopiedAt :: "date option"

definition logGeneratedPassword_schema ::
  "logGeneratedPassword_input \<Rightarrow> error + logGeneratedPassword_input" where
  "logGeneratedPassword_schema raw =
     (if (case l_length raw of None \<Rightarrow> True | Some n \<Rightarrow> z_number n) then Inr raw
      else Inl ValidationError)"

definition logGeneratedPassword_handler ::
  "logGeneratedPassword_input \<Rightarrow> api_context \<Rightarrow> env \<Rightarrow> db \<Rightarrow>
     (error + password option) \<times> db" where
  "logGeneratedPassword_handler input ctx e s =
     (case requireUser ctx of
        Inl err \<Rightarrow> (Inl err, s)
      | Inr u \<Rightarrow>
          (case (case l_presetId input of
                   None \<Rightarrow> (Inr (), s)
                 | Some pid \<Rightarrow>
                     if truthy pid
                     then (case getOwnedPreset pid (user_id u) s of
                             (Inl err, s1) \<Rightarrow> (Inl err, s1)
                           | (Inr owned, s1) \<Rightarrow> (Inr (), s1))
                     else (Inr (), s)) of
             (Inl err, s1) \<Rightarrow> (Inl err, s1)
           | (Inr _, s1) \<Rightarrow>
               (case insert_password
                       \<lparr>g_id = randomUUID e, g_userId = user_id u,
                        g_presetId = l_presetId input,
                        g_encryptedValue = l_encryptedValue input,
                        g_hintLabel = l_hintLabel input,
                        g_length = l_length input,
                        g_wasCopied = with_default False (l_wasCopied input),
                        g_lastCopiedAt = l_lastCopiedAt input,
                        g_createdAt = now e\<rparr> s1 of
                  (Inl err, s2) \<Rightarrow> (Inl err, s2)
                | (Inr rows, s2) \<Rightarrow> (Inr (first_row rows), s2))))"

definition logGeneratedPassword ::
  "logGeneratedPassword_input \<Rightarrow> api_context \<Rightarrow> env \<Rightarrow> db \<Rightarrow>
     (error + password option) \<times> db" where
  "logGeneratedPassword raw ctx e s =
     (case logGeneratedPassword_schema raw of
        Inl err \<Rightarrow> (Inl err, s)
      | Inr input \<Rightarrow> logGeneratedPassword_handler input ctx e s)"

subsection \<open>listGeneratedPasswords\<close>

record listGeneratedPasswords_input =
  lg_presetId :: "string option"

definition listGeneratedPasswords_schema ::
  "listGeneratedPasswords_input \<Rightarrow> error + listGeneratedPasswords_input" where
  "listGeneratedPasswords_schema raw = Inr raw"

definition listGeneratedPasswords_handler ::
  "listGeneratedPasswords_input \<Rightarrow> api_context \<Rightarrow> db \<Rightarrow> (error + password listing) \<times> db" where
  "listGeneratedPasswords_handler input ctx s =
     (case requireUser ctx of
        Inl err \<Rightarrow> (Inl err, s)
      | Inr u \<Rightarrow>
          (let filters = [\<lambda>g. g_userId g = user_id u] in
           case (case lg_presetId input of
                   None \<Rightarrow> (Inr filters, s)
                 | Some pid \<Rightarrow>
                     if truthy pid
                     then (case getOwnedPreset pid (user_id u) s of
                             (Inl err, s1) \<Rightarrow> (Inl err, s1)
                           | (Inr owned, s1) \<Rightarrow>
                               (Inr (filters @ [\<lambda>g. g_presetId g = Some pid]), s1))
                     else (Inr filters, s)) of
             (Inl err, s1) \<Rightarrow> (Inl err, s1)
           | (Inr filters, s1) \<Rightarrow>
               (case select_passwords (and_filters filters) s1 of
                  (Inl err, s2) \<Rightarrow> (Inl err, s2)
                | (Inr passwords, s2) \<Rightarrow>
                    (Inr \<lparr>items = passwords, total = length passwords\<rparr>, s2))))"

definition listGeneratedPasswords ::
  "listGeneratedPasswords_input \<Rightarrow> api_context \<Rightarrow> db \<Rightarrow> (error + password listing) \<times> db" where
  "listGeneratedPasswords raw ctx s =
     (case listGeneratedPasswords_schema raw of
        Inl err \<Rightarrow> (Inl err, s)
      | Inr input \<Rightarrow> listGeneratedPasswords_handler input ctx s)"

subsection \<open>Well-formed stores\<close>

text \<open>
  The ids of \<^verbatim>\<open>PasswordPresets\<close> are its primary key, and every one of them was
  produced by \<^verbatim>\<open>crypto.randomUUID()\<close>: they are pairwise distinct and none is the
  empty string.
\<close>

definition wf_db :: "db \<Rightarrow> bool" where
  "wf_db s =
     (distinct (map p_id (PasswordPresets s)) \<and> [] \<notin> set (map p_id (PasswordPresets s)))"

definition empty_db :: db where
  "empty_db = \<lparr>PasswordPresets = [], GeneratedPasswords = [], issued = []\<rparr>"

text \<open>
  The stores that the five actions build from the empty one, for any callers and
  inputs. A generated id is a UUID, so it is not the empty string.
\<close>

inductive reachable :: "db \<Rightarrow> bool" where
  reachable_empty: "reachable empty_db"
| reachable_createPreset:
    "reachable s \<Longrightarrow> randomUUID e \<noteq> [] \<Longrightarrow> reachable (snd (createPreset raw ctx e s))"
| reachable_updatePreset:
    "reachable s \<Longrightarrow> reachable (snd (updatePreset uraw ctx e s))"
| reachable_listPresets:
    "reachable s \<Longrightarrow> reachable (snd (listPresets lraw ctx s))"
| reachable_logGeneratedPassword:
    "reachable s \<Longrightarrow> randomUUID e \<noteq> [] \<Longrightarrow>
     reachable (snd (logGeneratedPassword input ctx e s))"
| reachable_listGeneratedPasswords:
    "reachable s \<Longrightarrow> reachable (snd (listGeneratedPasswords qi ctx s))"

subsection \<open>A small store for the concrete checks\<close>

definition alice :: user where
  "alice = \<lparr>user_id = ''alice''\<rparr>"

definition alice_ctx :: api_context where
  "alice_ctx = \<lparr>locals = Some \<lparr>user = Some alice\<rparr>\<rparr>"

definition anon_ctx :: api_context where
  "anon_ctx = \<lparr>locals = Some \<lparr>user = None\<rparr>\<rparr>"

definition env0 :: env where
  "env0 = \<lparr>randomUUID = ''uuid-2'', now = 2000\<rparr>"

definition wifi :: preset where
  "wifi = \<lparr>p_id = ''uuid-1'', p_userId = ''alice'', p_name = ''Wi-Fi'', p_length = Finite 12,
     p_includeLowercase = True, p_includeUppercase = True, p_includeNumbers = True,
     p_includeSymbols = True, p_excludeSimilar = False, p_customSymbols = None,
     p_notes = None, p_isDefault = False, p_createdAt = 1000, p_updatedAt = 1000\<rparr>"

definition bobs :: preset where
  "bobs = \<lparr>p_id = ''uuid-0'', p_userId = ''bob'', p_name = ''Bank'', p_length = Finite 32,
     p_includeLowercase = True, p_includeUppercase = True, p_includeNumbers = True,
     p_includeSymbols = False, p_excludeSimilar = True, p_customSymbols = None,
     p_notes = Some ''pin'', p_isDefault = True, p_createdAt = 500, p_updatedAt = 700\<rparr>"

definition logged :: password where
  "logged = \<lparr>g_id = ''uuid-9'', g_userId = ''bob'', g_presetId = Some ''uuid-0'',
     g_encryptedValue = Some ''c2VjcmV0'', g_hintLabel = None, g_length = Some (Finite 32),
     g_wasCopied = True, g_lastCopiedAt = Some 800, g_createdAt = 750\<rparr>"

definition db0 :: db where
  "db0 = \<lparr>PasswordPresets = [bobs, wifi], GeneratedPasswords = [logged], issued = []\<rparr>"

definition create_wifi :: createPreset_raw where
  "create_wifi = \<lparr>cr_name = Some ''Wi-Fi'', cr_length = Some (Finite 12),
     cr_includeLowercase = None, cr_includeUppercase = None, cr_includeNumbers = None,
     cr_includeSymbols = None, cr_excludeSimilar = None, cr_customSymbols = None,
     cr_notes = None, cr_isDefault = None\<rparr>"

definition update_only_id :: "string \<Rightarrow> updatePreset_raw" where
  "update_only_id i = \<lparr>ur_id = Some i, ur_name = None, ur_length = None,
     ur_includeLowercase = None, ur_includeUppercase = None, ur_includeNumbers = None,
     ur_includeSymbols = None, ur_excludeSimilar = None, ur_customSymbols = None,
     ur_notes = None, ur_isDefault = None\<rparr>"

definition log_with :: "string option \<Rightarrow> logGeneratedPassword_input" where
  "log_with pid = \<lparr>l_presetId = pid, l_encryptedValue = Some ''YWJj'', l_hintLabel = None,
     l_length = Some (Finite 16), l_wasCopied = None, l_lastCopiedAt = None\<rparr>"

definition bob_ctx :: api_context where
  "bob_ctx = \<lparr>locals = Some \<lparr>user = Some \<lparr>user_id = ''bob''\<rparr>\<rparr>\<rparr>"

definition update_length :: "string \<Rightarrow> rat \<Rightarrow> updatePreset_raw" where
  "update_length i n = (update_only_id i)\<lparr>ur_length := Some (Finite n)\<rparr>"

definition wifi_input :: createPreset_input where
  "wifi_input = \<lparr>c_name = ''Wi-Fi'', c_length = Finite 12, c_includeLowercase = True,
     c_includeUppercase = True, c_includeNumbers = True, c_includeSymbols = True,
     c_excludeSimilar = False, c_customSymbols = None, c_notes = None,
     c_isDefault = None\<rparr>"

definition length_input :: "string \<Rightarrow> rat \<Rightarrow> updatePreset_input" where
  "length_input i n = \<lparr>u_id = i, u_name = None, u_length = Some (Finite n),
     u_includeLowercase = None, u_includeUppercase = None, u_includeNumbers = None,
     u_includeSymbols = None, u_excludeSimilar = None, u_customSymbols = None,
     u_notes = None, u_isDefault = None\<rparr>"

text \<open>Inputs with a length of \<open>2\<^sup>5\<^sup>3\<close>, and a name that holds a \<open>U+0000\<close>.\<close>

definition create_unsafe :: createPreset_raw where
  "create_unsafe = create_wifi\<lparr>cr_length := Some (Finite 9007199254740992)\<rparr>"

definition unsafe_row :: preset where
  "unsafe_row = \<lparr>p_id = ''uuid-2'', p_userId = ''alice'', p_name = ''Wi-Fi'',
     p_length = Finite 9007199254740992,
     p_includeLowercase = True, p_includeUppercase = True, p_includeNumbers = True,
     p_includeSymbols = True, p_excludeSimilar = False, p_customSymbols = None,
     p_notes = None, p_isDefault = False, p_createdAt = 2000, p_updatedAt = 2000\<rparr>"

definition db_unsafe :: db where
  "db_unsafe = db0\<lparr>PasswordPresets := [bobs, wifi, unsafe_row],
                   issued := [Insert PasswordPresetsT]\<rparr>"

definition log_unsafe :: logGeneratedPassword_input where
  "log_unsafe = (log_with None)\<lparr>l_length := Some (Finite 9007199254740992)\<rparr>"

definition unsafe_logged :: password where
  "unsafe_logged = \<lparr>g_id = ''uuid-2'', g_userId = ''alice'', g_presetId = None,
     g_encryptedValue = Some ''YWJj'', g_hintLabel = None,
     g_length = Some (Finite 9007199254740992), g_wasCopied = False,
     g_lastCopiedAt = None, g_createdAt = 2000\<rparr>"

definition nul_name :: string where
  "nul_name = [CHR ''a'', CHR 0x00, CHR ''b'']"

definition update_name :: "string \<Rightarrow> string \<Rightarrow> updatePreset_raw" where
  "update_name i nm = (update_only_id i)\<lparr>ur_name := Some nm\<rparr>"

section \<open>Properties\<close>

subsection \<open>Session guard and ownership lookup\<close>

lemma requireUser_none:
  "(case locals ctx of None \<Rightarrow> None | Some l \<Rightarrow> user l) = None \<Longrightarrow>
   requireUser ctx = Inl UNAUTHORIZED"
  by (simp add: requireUser_def)

lemma requireUser_alice: "requireUser alice_ctx = Inr alice"
  by (simp add: requireUser_def alice_ctx_def)

lemma and_filters_one: "and_filters [f] = f"
  by (rule ext) (simp add: and_filters_def)

lemma and_filters_two: "and_filters [f, g] = (\<lambda>r. f r \<and> g r)"
  by (rule ext) (simp add: and_filters_def)

text \<open>A text that holds no \<open>U+0000\<close> is read back whole, and so is a row of such texts.\<close>

lemma cut_at_nul_whole: "CHR 0x00 \<notin> set t \<Longrightarrow> cut_at_nul t = t"
  by (auto simp: cut_at_nul_def takeWhile_eq_all_conv)

lemma preset_as_read_whole:
  assumes "CHR 0x00 \<notin> set (p_name row)"
    and "\<forall>t. p_customSymbols row = Some t \<longrightarrow> CHR 0x00 \<notin> set t"
    and "\<forall>t. p_notes row = Some t \<longrightarrow> CHR 0x00 \<notin> set t"
  shows "preset_as_read row = row"
proof -
  have "map_option cut_at_nul (p_customSymbols row) = p_customSymbols row"
    using assms(2) by (cases "p_customSymbols row") (simp_all add: cut_at_nul_whole)
  moreover have "map_option cut_at_nul (p_notes row) = p_notes row"
    using assms(3) by (cases "p_notes row") (simp_all add: cut_at_nul_whole)
  ultimately show ?thesis
    using assms(1) by (simp add: preset_as_read_def cut_at_nul_whole)
qed

lemma password_as_read_whole:
  assumes "\<forall>t. g_encryptedValue row = Some t \<longrightarrow> CHR 0x00 \<notin> set t"
    and "\<forall>t. g_hintLabel row = Some t \<longrightarrow> CHR 0x00 \<notin> set t"
  shows "password_as_read row = row"
proof -
  have "map_option cut_at_nul (g_encryptedValue row) = g_encryptedValue row"
    using assms(1) by (cases "g_encryptedValue row") (simp_all add: cut_at_nul_whole)
  moreover have "map_option cut_at_nul (g_hintLabel row) = g_hintLabel row"
    using assms(2) by (cases "g_hintLabel row") (simp_all add: cut_at_nul_whole)
  ultimately show ?thesis by (simp add: password_as_read_def)
qed

lemma read_presets_ok:
  "\<forall>p \<in> set xs. readable (p_length p) \<Longrightarrow>
   read_rows read_preset xs = Inr (map preset_as_read xs)"
  by (induction xs) (simp_all add: read_preset_def)

lemma read_presets_result:
  "read_rows read_preset xs = Inr ys \<Longrightarrow>
   ys = map preset_as_read xs \<and> (\<forall>p \<in> set xs. readable (p_length p))"
  by (induction xs arbitrary: ys)
    (auto simp: read_preset_def split: if_splits sum.splits)

lemma read_presets_fail:
  "p \<in> set xs \<Longrightarrow> \<not> readable (p_length p) \<Longrightarrow> read_rows read_preset xs = Inl RangeError"
  by (induction xs) (auto simp: read_preset_def split: sum.splits)

lemma read_passwords_ok:
  "\<forall>g \<in> set xs. (case g_length g of None \<Rightarrow> True | Some n \<Rightarrow> readable n) \<Longrightarrow>
   read_rows read_password xs = Inr (map password_as_read xs)"
  by (induction xs) (simp_all add: read_password_def)

lemma read_passwords_result:
  "read_rows read_password xs = Inr ys \<Longrightarrow> ys = map password_as_read xs"
  by (induction xs arbitrary: ys)
    (auto simp: read_password_def split: if_splits sum.splits)

lemma getOwnedPreset_absent:
  assumes "\<forall>p \<in> set (PasswordPresets s). \<not> (p_id p = pid \<and> p_userId p = uid)"
  shows "getOwnedPreset pid uid s =
           (Inl NOT_FOUND, s\<lparr>issued := issued s @ [Select PasswordPresetsT]\<rparr>)"
proof -
  have "filter (and_filters [\<lambda>p. p_id p = pid, \<lambda>p. p_userId p = uid])
          (PasswordPresets s) = []"
    using assms by (auto simp: and_filters_def filter_empty_conv)
  then show ?thesis
    by (simp add: getOwnedPreset_def select_presets_def first_row_def issue_def)
qed

lemma getOwnedPreset_result:
  assumes "getOwnedPreset pid uid s = (Inr r, s1)"
  shows "(\<exists>w \<in> set (PasswordPresets s).
            p_id w = pid \<and> p_userId w = uid \<and> r = preset_as_read w) \<and>
         s1 = s\<lparr>issued := issued s @ [Select PasswordPresetsT]\<rparr>"
proof -
  let ?rows = "filter (and_filters [\<lambda>p. p_id p = pid, \<lambda>p. p_userId p = uid])
                 (PasswordPresets s)"
  from assms obtain rows
    where rd: "read_rows read_preset ?rows = Inr rows" and fr: "first_row rows = Some r"
      and s1: "s1 = issue (Select PasswordPresetsT) s"
    by (auto simp: getOwnedPreset_def select_presets_def
        split: sum.splits option.splits)
  from read_presets_result [OF rd] have "rows = map preset_as_read ?rows" by simp
  with fr obtain w rest where "?rows = w # rest" and "r = preset_as_read w"
    by (cases ?rows) (auto simp: first_row_def)
  then have "w \<in> set ?rows" by simp
  then have "w \<in> set (PasswordPresets s)" "p_id w = pid" "p_userId w = uid"
    by (auto simp: and_filters_def)
  then show ?thesis using s1 \<open>r = preset_as_read w\<close> by (auto simp: issue_def)
qed

text \<open>
  C2. When the request context carries no user, each of the five handlers fails with
  \<open>UNAUTHORIZED\<close> and returns the store it was given: no table has changed and no
  statement has been issued. The handlers are the functions that receive the parsed
  input, so the statement ranges over every input a handler can be called with.
\<close>

theorem unauthenticated_rejected:
  assumes "(case locals ctx of None \<Rightarrow> None | Some l \<Rightarrow> user l) = None"
  shows "createPreset_handler ci ctx e s = (Inl UNAUTHORIZED, s) \<and>
         updatePreset_handler ui ctx e s = (Inl UNAUTHORIZED, s) \<and>
         listPresets_handler li ctx s = (Inl UNAUTHORIZED, s) \<and>
         logGeneratedPassword_handler gi ctx e s = (Inl UNAUTHORIZED, s) \<and>
         listGeneratedPasswords_handler qi ctx s = (Inl UNAUTHORIZED, s)"
  using requireUser_none [OF assms]
  by (simp add: createPreset_handler_def updatePreset_handler_def listPresets_handler_def
      logGeneratedPassword_handler_def listGeneratedPasswords_handler_def)

theorem unauthenticated_rejected_witness:
  "(case locals anon_ctx of None \<Rightarrow> None | Some l \<Rightarrow> user l) = None \<and>
   createPreset_handler wifi_input anon_ctx env0 db0 = (Inl UNAUTHORIZED, db0) \<and>
   updatePreset_handler (length_input ''uuid-1'' 20) anon_ctx env0 db0 =
     (Inl UNAUTHORIZED, db0) \<and>
   listPresets_handler \<lparr>defaultsOnly = False\<rparr> anon_ctx db0 = (Inl UNAUTHORIZED, db0) \<and>
   logGeneratedPassword_handler (log_with None) anon_ctx env0 db0 =
     (Inl UNAUTHORIZED, db0) \<and>
   listGeneratedPasswords_handler \<lparr>lg_presetId = None\<rparr> anon_ctx db0 =
     (Inl UNAUTHORIZED, db0)"
  using unauthenticated_rejected [of anon_ctx wifi_input env0 db0]
  by (simp add: anon_ctx_def)

text \<open>
  The same at the level of the actions: the schema runs before the handler, so an
  unauthenticated call fails with the validation error when its input is rejected and
  with \<open>UNAUTHORIZED\<close> otherwise, and the store is the one it was given either way.
\<close>

lemma unauthenticated_actions:
  assumes "(case locals ctx of None \<Rightarrow> None | Some l \<Rightarrow> user l) = None"
  shows "createPreset craw ctx e s \<in> {(Inl ValidationError, s), (Inl UNAUTHORIZED, s)}"
    and "updatePreset uraw ctx e s \<in> {(Inl ValidationError, s), (Inl UNAUTHORIZED, s)}"
    and "listPresets lraw ctx s = (Inl UNAUTHORIZED, s)"
    and "logGeneratedPassword gi ctx e s \<in> {(Inl ValidationError, s), (Inl UNAUTHORIZED, s)}"
    and "listGeneratedPasswords qi ctx s = (Inl UNAUTHORIZED, s)"
proof -
  note guard = requireUser_none [OF assms]
  show "createPreset craw ctx e s \<in> {(Inl ValidationError, s), (Inl UNAUTHORIZED, s)}"
    using guard
    by (auto simp: createPreset_def createPreset_schema_def createPreset_handler_def
        split: option.splits sum.splits)
  show "updatePreset uraw ctx e s \<in> {(Inl ValidationError, s), (Inl UNAUTHORIZED, s)}"
    using guard
    by (auto simp: updatePreset_def updatePreset_schema_def updatePreset_object_def
        updatePreset_handler_def split: option.splits sum.splits if_splits)
  show "listPresets lraw ctx s = (Inl UNAUTHORIZED, s)"
    using guard by (simp add: listPresets_def listPresets_schema_def listPresets_handler_def)
  show "logGeneratedPassword gi ctx e s \<in> {(Inl ValidationError, s), (Inl UNAUTHORIZED, s)}"
    using guard
    by (simp add: logGeneratedPassword_def logGeneratedPassword_schema_def
        logGeneratedPassword_handler_def)
  show "listGeneratedPasswords qi ctx s = (Inl UNAUTHORIZED, s)"
    using guard
    by (simp add: listGeneratedPasswords_def listGeneratedPasswords_schema_def
        listGeneratedPasswords_handler_def)
qed

text \<open>
  C3. An \<^verbatim>\<open>updatePreset\<close> input in which none of the ten optional fields is supplied
  is rejected by the schema: the action fails with the validation error, and the store
  is the one it was given. This holds whatever the id is, and whoever calls.
\<close>

theorem update_without_fields_rejected:
  assumes "ur_name raw = None" "ur_length raw = None" "ur_includeLowercase raw = None"
    "ur_includeUppercase raw = None" "ur_includeNumbers raw = None"
    "ur_includeSymbols raw = None" "ur_excludeSimilar raw = None"
    "ur_customSymbols raw = None" "ur_notes raw = None" "ur_isDefault raw = None"
  shows "updatePreset raw ctx e s = (Inl ValidationError, s)"
proof -
  have "updatePreset_schema raw = Inl ValidationError"
    using assms
    by (simp add: updatePreset_schema_def updatePreset_object_def refine_pred_def
        split: option.splits)
  then show ?thesis by (simp add: updatePreset_def)
qed

theorem update_without_fields_rejected_witness:
  "updatePreset (update_only_id ''uuid-1'') alice_ctx env0 db0 = (Inl ValidationError, db0)"
  using update_without_fields_rejected [of "update_only_id ''uuid-1''" alice_ctx env0 db0]
  by (simp add: update_only_id_def)

subsection \<open>Rows with pairwise distinct keys\<close>

lemma filter_key_distinct:
  "distinct (map k xs) \<Longrightarrow> x \<in> set xs \<Longrightarrow> filter (\<lambda>y. k y = k x) xs = [x]"
proof (induction xs)
  case Nil
  then show ?case by simp
next
  case (Cons a xs)
  show ?case
  proof (cases "a = x")
    case True
    have "k x \<notin> k ` set xs" using Cons.prems True by simp
    then have "\<forall>y \<in> set xs. k y \<noteq> k x" by (metis imageI)
    then have "filter (\<lambda>y. k y = k x) xs = []" by (simp add: filter_empty_conv)
    then show ?thesis using True by simp
  next
    case False
    then have "x \<in> set xs" using Cons.prems by simp
    moreover have "k a \<noteq> k x" using Cons.prems \<open>x \<in> set xs\<close> by auto
    ultimately show ?thesis using Cons by simp
  qed
qed

lemma map_key_update:
  "distinct (map k xs) \<Longrightarrow> i < length xs \<Longrightarrow>
   map (\<lambda>y. if k y = k (xs ! i) then f y else y) xs = xs[i := f (xs ! i)]"
proof (induction xs arbitrary: i)
  case Nil
  then show ?case by simp
next
  case (Cons a xs)
  show ?case
  proof (cases i)
    case 0
    have "k a \<notin> k ` set xs" using Cons.prems by simp
    then have "\<forall>y \<in> set xs. k y \<noteq> k a" by (metis imageI)
    then have "map (\<lambda>y. if k y = k a then f y else y) xs = xs"
      by (simp add: map_idI)
    then show ?thesis using 0 by simp
  next
    case (Suc j)
    then have j: "j < length xs" using Cons.prems by simp
    then have "xs ! j \<in> set xs" by simp
    then have "k a \<noteq> k (xs ! j)" using Cons.prems by auto
    then show ?thesis using Suc Cons.IH [OF _ j] Cons.prems by simp
  qed
qed

subsection \<open>Presets of another user\<close>

lemma wf_db_preset_unique:
  assumes "wf_db s" "r \<in> set (PasswordPresets s)" "p \<in> set (PasswordPresets s)"
    "p_id p = p_id r"
  shows "p = r"
proof -
  have "inj_on p_id (set (PasswordPresets s))"
    using assms(1) by (simp add: wf_db_def distinct_map)
  then show ?thesis using assms(2-4) by (auto dest: inj_onD)
qed

lemma wf_db_preset_id_nonempty:
  assumes "wf_db s" "r \<in> set (PasswordPresets s)"
  shows "p_id r \<noteq> []"
proof -
  have "[] \<notin> p_id ` set (PasswordPresets s)" using assms(1) by (simp add: wf_db_def)
  then show ?thesis using assms(2) by (metis imageI)
qed

text \<open>
  C1. In a well-formed store, let a preset row with id \<open>pid\<close> exist whose owner is
  not the authenticated caller. Then \<^verbatim>\<open>updatePreset\<close> on that id, and
  \<^verbatim>\<open>logGeneratedPassword\<close> and \<^verbatim>\<open>listGeneratedPasswords\<close> with that
  \<^verbatim>\<open>presetId\<close>, fail with \<open>NOT_FOUND\<close>. The store they leave differs from the
  one they were given only by the record of the one lookup: both tables are as they
  were, nothing was inserted or updated.
\<close>

theorem foreign_preset_not_found:
  assumes "wf_db s" and "requireUser ctx = Inr u"
    and "r \<in> set (PasswordPresets s)" and "p_id r = pid" and "p_userId r \<noteq> user_id u"
  shows "(u_id ui = pid \<longrightarrow>
            updatePreset_handler ui ctx e s =
              (Inl NOT_FOUND, s\<lparr>issued := issued s @ [Select PasswordPresetsT]\<rparr>)) \<and>
         (l_presetId gi = Some pid \<longrightarrow>
            logGeneratedPassword_handler gi ctx e s =
              (Inl NOT_FOUND, s\<lparr>issued := issued s @ [Select PasswordPresetsT]\<rparr>)) \<and>
         (lg_presetId qi = Some pid \<longrightarrow>
            listGeneratedPasswords_handler qi ctx s =
              (Inl NOT_FOUND, s\<lparr>issued := issued s @ [Select PasswordPresetsT]\<rparr>))"
proof -
  have "\<forall>p \<in> set (PasswordPresets s). \<not> (p_id p = pid \<and> p_userId p = user_id u)"
    using wf_db_preset_unique [OF assms(1) assms(3)] assms(4,5) by auto
  then have lookup: "getOwnedPreset pid (user_id u) s =
      (Inl NOT_FOUND, s\<lparr>issued := issued s @ [Select PasswordPresetsT]\<rparr>)"
    by (rule getOwnedPreset_absent)
  have ne: "truthy pid"
    using wf_db_preset_id_nonempty [OF assms(1) assms(3)] assms(4) by (simp add: truthy_def)
  show ?thesis
    using lookup ne assms(2)
    by (simp add: updatePreset_handler_def logGeneratedPassword_handler_def
        listGeneratedPasswords_handler_def)
qed

lemma wf_db0: "wf_db db0"
  by (simp add: wf_db_def db0_def bobs_def wifi_def logged_def)

theorem foreign_preset_not_found_witness:
  "wf_db db0 \<and> requireUser alice_ctx = Inr alice \<and> bobs \<in> set (PasswordPresets db0) \<and>
   p_userId bobs \<noteq> user_id alice \<and>
   updatePreset_handler (length_input ''uuid-0'' 20) alice_ctx env0 db0 =
     (Inl NOT_FOUND, db0\<lparr>issued := [Select PasswordPresetsT]\<rparr>) \<and>
   logGeneratedPassword_handler (log_with (Some ''uuid-0'')) alice_ctx env0 db0 =
     (Inl NOT_FOUND, db0\<lparr>issued := [Select PasswordPresetsT]\<rparr>) \<and>
   listGeneratedPasswords_handler \<lparr>lg_presetId = Some ''uuid-0''\<rparr> alice_ctx db0 =
     (Inl NOT_FOUND, db0\<lparr>issued := [Select PasswordPresetsT]\<rparr>)"
proof -
  have h: "bobs \<in> set (PasswordPresets db0)" "p_id bobs = ''uuid-0''"
    "p_userId bobs \<noteq> user_id alice"
    by (simp_all add: db0_def bobs_def alice_def)
  have i: "issued db0 = []" by (simp add: db0_def)
  show ?thesis
    using foreign_preset_not_found [OF wf_db0 requireUser_alice h,
        of "length_input ''uuid-0'' 20" env0 "log_with (Some ''uuid-0'')"
           "\<lparr>lg_presetId = Some ''uuid-0''\<rparr>"]
      wf_db0 requireUser_alice h i
    by (simp add: length_input_def log_with_def)
qed

subsection \<open>createPreset\<close>

lemma readable_safe: "\<bar>q\<bar> \<le> MAX_SAFE_INTEGER \<Longrightarrow> readable (Finite q)"
  by simp

lemma insert_preset_fresh:
  assumes "bindable (p_length row)" and "readable (p_length row)"
    and "p_id row \<notin> set (map p_id (PasswordPresets s))"
  shows "insert_preset row s =
           (Inr [preset_as_read row],
            s\<lparr>PasswordPresets := PasswordPresets s @ [row],
              issued := issued s @ [Insert PasswordPresetsT]\<rparr>)"
  using assms by (simp add: insert_preset_def read_preset_def issue_def)

lemma insert_preset_unreadable:
  assumes "bindable (p_length row)" and "\<not> readable (p_length row)"
    and "p_id row \<notin> set (map p_id (PasswordPresets s))"
  shows "insert_preset row s =
           (Inl RangeError,
            s\<lparr>PasswordPresets := PasswordPresets s @ [row],
              issued := issued s @ [Insert PasswordPresetsT]\<rparr>)"
  using assms by (simp add: insert_preset_def read_preset_def issue_def)

lemma insert_preset_result:
  "insert_preset row s = (Inr rows, s1) \<Longrightarrow>
   rows = [preset_as_read row] \<and> PasswordPresets s1 = PasswordPresets s @ [row]"
  by (auto simp: insert_preset_def read_preset_def issue_def Let_def split: if_splits)

lemma insert_preset_refused:
  "insert_preset row s = (Inl err, s1) \<Longrightarrow>
   PasswordPresets s1 = PasswordPresets s \<or> PasswordPresets s1 = PasswordPresets s @ [row]"
  by (auto simp: insert_preset_def read_preset_def issue_def Let_def split: if_splits)

text \<open>
  C4, as amended. Let the input carry a non-empty name and an integer length of at
  least 4 and at most \<^verbatim>\<open>Number.MAX_SAFE_INTEGER\<close>, let the caller be authenticated,
  and let the generated id be new to the table. Then \<^verbatim>\<open>createPreset\<close> writes one row
  and returns it as read back: a record whose length is the supplied one (so at least
  4), whose owner is the caller, whose two timestamps are equal, and whose flags are
  the supplied values, or else \<open>True\<close> for the four character classes and \<open>False\<close>
  for \<^verbatim>\<open>excludeSimilar\<close> and \<^verbatim>\<open>isDefault\<close>.
\<close>

theorem createPreset_record:
  assumes "cr_name raw = Some nm" and "nm \<noteq> []"
    and "cr_length raw = Some (Finite q)" and "of_int \<lfloor>q\<rfloor> = q" and "4 \<le> q"
    and "q \<le> MAX_SAFE_INTEGER"
    and "requireUser ctx = Inr u"
    and "randomUUID e \<notin> set (map p_id (PasswordPresets s))"
  shows "\<exists>r w. createPreset raw ctx e s =
                (Inr (Some r), s\<lparr>PasswordPresets := PasswordPresets s @ [w],
                                  issued := issued s @ [Insert PasswordPresetsT]\<rparr>) \<and>
              r = preset_as_read w \<and>
              p_length r = Finite q \<and> 4 \<le> q \<and> p_userId r = user_id u \<and>
              p_createdAt r = p_updatedAt r \<and>
              p_includeLowercase r =
                (case cr_includeLowercase raw of None \<Rightarrow> True | Some b \<Rightarrow> b) \<and>
              p_includeUppercase r =
                (case cr_includeUppercase raw of None \<Rightarrow> True | Some b \<Rightarrow> b) \<and>
              p_includeNumbers r =
                (case cr_includeNumbers raw of None \<Rightarrow> True | Some b \<Rightarrow> b) \<and>
              p_includeSymbols r =
                (case cr_includeSymbols raw of None \<Rightarrow> True | Some b \<Rightarrow> b) \<and>
              p_excludeSimilar r =
                (case cr_excludeSimilar raw of None \<Rightarrow> False | Some b \<Rightarrow> b) \<and>
              p_isDefault r = (case cr_isDefault raw of None \<Rightarrow> False | Some b \<Rightarrow> b)"
proof -
  obtain input where parsed: "createPreset_schema raw = Inr input"
    and fields: "c_length input = Finite q"
      "c_includeLowercase input = with_default True (cr_includeLowercase raw)"
      "c_includeUppercase input = with_default True (cr_includeUppercase raw)"
      "c_includeNumbers input = with_default True (cr_includeNumbers raw)"
      "c_includeSymbols input = with_default True (cr_includeSymbols raw)"
      "c_excludeSimilar input = with_default False (cr_excludeSimilar raw)"
      "c_isDefault input = cr_isDefault raw"
    using assms(1-5) by (simp add: createPreset_schema_def)
  define w where "w = \<lparr>p_id = randomUUID e, p_userId = user_id u,
      p_name = c_name input, p_length = c_length input,
      p_includeLowercase = c_includeLowercase input,
      p_includeUppercase = c_includeUppercase input,
      p_includeNumbers = c_includeNumbers input,
      p_includeSymbols = c_includeSymbols input,
      p_excludeSimilar = c_excludeSimilar input,
      p_customSymbols = c_customSymbols input,
      p_notes = c_notes input,
      p_isDefault = with_default False (c_isDefault input),
      p_createdAt = now e, p_updatedAt = now e\<rparr>"
  have len: "p_length w = Finite q" using fields(1) by (simp add: w_def)
  have "\<bar>q\<bar> \<le> MAX_SAFE_INTEGER" using assms(5,6) by simp
  then have ok: "bindable (p_length w)" "readable (p_length w)"
    using len by simp_all
  have "p_id w \<notin> set (map p_id (PasswordPresets s))"
    using assms(8) by (simp add: w_def)
  with ok have "insert_preset w s =
      (Inr [preset_as_read w], s\<lparr>PasswordPresets := PasswordPresets s @ [w],
                                  issued := issued s @ [Insert PasswordPresetsT]\<rparr>)"
    by (rule insert_preset_fresh)
  then have run: "createPreset raw ctx e s =
      (Inr (Some (preset_as_read w)),
       s\<lparr>PasswordPresets := PasswordPresets s @ [w],
         issued := issued s @ [Insert PasswordPresetsT]\<rparr>)"
    using parsed assms(7)
    by (simp add: createPreset_def createPreset_handler_def first_row_def w_def)
  have props: "p_length (preset_as_read w) = Finite q"
    "p_userId (preset_as_read w) = user_id u"
    "p_createdAt (preset_as_read w) = p_updatedAt (preset_as_read w)"
    "p_includeLowercase (preset_as_read w) = with_default True (cr_includeLowercase raw)"
    "p_includeUppercase (preset_as_read w) = with_default True (cr_includeUppercase raw)"
    "p_includeNumbers (preset_as_read w) = with_default True (cr_includeNumbers raw)"
    "p_includeSymbols (preset_as_read w) = with_default True (cr_includeSymbols raw)"
    "p_excludeSimilar (preset_as_read w) = with_default False (cr_excludeSimilar raw)"
    "p_isDefault (preset_as_read w) = with_default False (cr_isDefault raw)"
    using fields by (simp_all add: w_def preset_as_read_def)
  show ?thesis
    using run props assms(5) unfolding with_default_def by blast
qed

theorem createPreset_record_witness:
  "\<exists>r. createPreset create_wifi alice_ctx env0 db0 =
          (Inr (Some r), db0\<lparr>PasswordPresets := [bobs, wifi, r],
                              issued := [Insert PasswordPresetsT]\<rparr>) \<and>
        p_length r = Finite 12 \<and> p_userId r = ''alice'' \<and>
        p_createdAt r = p_updatedAt r \<and>
        p_includeLowercase r \<and> p_includeUppercase r \<and> p_includeNumbers r \<and>
        p_includeSymbols r \<and> \<not> p_excludeSimilar r \<and> \<not> p_isDefault r"
proof -
  have h: "cr_name create_wifi = Some ''Wi-Fi''" "''Wi-Fi'' \<noteq> []"
    "cr_length create_wifi = Some (Finite 12)" "of_int \<lfloor>12::rat\<rfloor> = (12::rat)"
    "(4::rat) \<le> 12" "(12::rat) \<le> MAX_SAFE_INTEGER"
    by (simp_all add: create_wifi_def MAX_SAFE_INTEGER_def)
  have fresh: "randomUUID env0 \<notin> set (map p_id (PasswordPresets db0))"
    by (simp add: env0_def db0_def bobs_def wifi_def)
  from createPreset_record [OF h requireUser_alice fresh]
  obtain r w where run: "createPreset create_wifi alice_ctx env0 db0 =
      (Inr (Some r), db0\<lparr>PasswordPresets := PasswordPresets db0 @ [w],
                          issued := issued db0 @ [Insert PasswordPresetsT]\<rparr>)"
    and rw: "r = preset_as_read w"
    and props: "p_length r = Finite 12" "p_userId r = user_id alice"
      "p_createdAt r = p_updatedAt r"
      "p_includeLowercase r =
         (case cr_includeLowercase create_wifi of None \<Rightarrow> True | Some b \<Rightarrow> b)"
      "p_includeUppercase r =
         (case cr_includeUppercase create_wifi of None \<Rightarrow> True | Some b \<Rightarrow> b)"
      "p_includeNumbers r =
         (case cr_includeNumbers create_wifi of None \<Rightarrow> True | Some b \<Rightarrow> b)"
      "p_includeSymbols r =
         (case cr_includeSymbols create_wifi of None \<Rightarrow> True | Some b \<Rightarrow> b)"
      "p_excludeSimilar r =
         (case cr_excludeSimilar create_wifi of None \<Rightarrow> False | Some b \<Rightarrow> b)"
      "p_isDefault r = (case cr_isDefault create_wifi of None \<Rightarrow> False | Some b \<Rightarrow> b)"
    by blast
  have direct: "createPreset create_wifi alice_ctx env0 db0 =
      (Inr (Some (wifi\<lparr>p_id := ''uuid-2'', p_createdAt := 2000, p_updatedAt := 2000\<rparr>)),
       db0\<lparr>PasswordPresets :=
             [bobs, wifi,
              wifi\<lparr>p_id := ''uuid-2'', p_createdAt := 2000, p_updatedAt := 2000\<rparr>],
           issued := [Insert PasswordPresetsT]\<rparr>)"
    by (simp add: createPreset_def createPreset_schema_def createPreset_handler_def
        insert_preset_def read_preset_def preset_as_read_def cut_at_nul_def
        first_row_def issue_def with_default_def MAX_SAFE_INTEGER_def
        requireUser_alice create_wifi_def env0_def db0_def bobs_def wifi_def alice_def)
  have "r = wifi\<lparr>p_id := ''uuid-2'', p_createdAt := 2000, p_updatedAt := 2000\<rparr>"
    using run direct by simp
  then show ?thesis
    using direct props by (auto simp: create_wifi_def alice_def)
qed

text \<open>
  The claim as it was stated fails beyond that bound. The input below is accepted by
  the schema (a non-empty name, the integer \<open>2\<^sup>5\<^sup>3\<close>) and the caller is
  authenticated, yet no record is returned: the row is written, and reading it back
  throws.
\<close>

theorem createPreset_record_counterexample:
  "cr_name create_unsafe = Some ''Wi-Fi'' \<and>
   cr_length create_unsafe = Some (Finite 9007199254740992) \<and>
   is_integer (Finite 9007199254740992) \<and> at_least 4 (Finite 9007199254740992) \<and>
   requireUser alice_ctx = Inr alice \<and>
   randomUUID env0 \<notin> set (map p_id (PasswordPresets db0)) \<and>
   createPreset create_unsafe alice_ctx env0 db0 = (Inl RangeError, db_unsafe) \<and>
   PasswordPresets db_unsafe = [bobs, wifi, unsafe_row]"
  by (simp add: createPreset_def createPreset_schema_def createPreset_handler_def
      insert_preset_def read_preset_def stored_as_integer_def
      first_row_def issue_def with_default_def MAX_SAFE_INTEGER_def
      requireUser_alice create_unsafe_def create_wifi_def unsafe_row_def db_unsafe_def
      env0_def db0_def bobs_def wifi_def alice_def)

text \<open>
  A name that holds a \<open>U+0000\<close> is stored as supplied and returned cut at that
  character.
\<close>

lemma createPreset_nul_name:
  "createPreset (create_wifi\<lparr>cr_name := Some nul_name\<rparr>) alice_ctx env0 db0 =
     (Inr (Some (wifi\<lparr>p_id := ''uuid-2'', p_name := ''a'',
                      p_createdAt := 2000, p_updatedAt := 2000\<rparr>)),
      db0\<lparr>PasswordPresets :=
            [bobs, wifi,
             wifi\<lparr>p_id := ''uuid-2'', p_name := nul_name,
                  p_createdAt := 2000, p_updatedAt := 2000\<rparr>],
          issued := [Insert PasswordPresetsT]\<rparr>)"
  by (simp add: createPreset_def createPreset_schema_def createPreset_handler_def
      insert_preset_def read_preset_def preset_as_read_def cut_at_nul_def
      first_row_def issue_def with_default_def MAX_SAFE_INTEGER_def nul_name_def
      requireUser_alice create_wifi_def env0_def db0_def bobs_def wifi_def alice_def)

text \<open>An insert whose generated id is already a key of the table is refused.\<close>

lemma createPreset_stale_id:
  assumes "createPreset_schema raw = Inr input" and "requireUser ctx = Inr u"
    and "randomUUID e \<in> set (map p_id (PasswordPresets s))"
  shows "createPreset raw ctx e s =
           (Inl ConstraintError, s\<lparr>issued := issued s @ [Insert PasswordPresetsT]\<rparr>)"
proof -
  have "bindable (c_length input)"
    using assms(1)
    by (cases "cr_length raw"; cases "the (cr_length raw)")
      (auto simp: createPreset_schema_def split: option.splits if_splits)
  then show ?thesis
    using assms
    by (simp add: createPreset_def createPreset_handler_def insert_preset_def issue_def)
qed

subsection \<open>updatePreset\<close>

lemma updatePreset_schema_fields:
  assumes "updatePreset_schema raw = Inr input"
  shows "ur_id raw = Some (u_id input) \<and> u_name input = ur_name raw \<and>
         u_length input = ur_length raw \<and>
         u_includeLowercase input = ur_includeLowercase raw \<and>
         u_includeUppercase input = ur_includeUppercase raw \<and>
         u_includeNumbers input = ur_includeNumbers raw \<and>
         u_includeSymbols input = ur_includeSymbols raw \<and>
         u_excludeSimilar input = ur_excludeSimilar raw \<and>
         u_customSymbols input = ur_customSymbols raw \<and>
         u_notes input = ur_notes raw \<and> u_isDefault input = ur_isDefault raw"
proof -
  from assms have obj: "updatePreset_object raw = Inr input"
    by (auto simp: updatePreset_schema_def split: sum.splits if_splits)
  then obtain i where i: "ur_id raw = Some i"
    by (cases "ur_id raw") (simp_all add: updatePreset_object_def)
  from obj i show ?thesis
    by (auto simp: updatePreset_object_def split: if_splits)
qed

lemma update_presets_one:
  assumes "distinct (map p_id (PasswordPresets s))" and "i < length (PasswordPresets s)"
    and "list_all bindable bound"
  shows "update_presets bound f (\<lambda>p. p_id p = p_id (PasswordPresets s ! i)) s =
           (case read_preset (f (PasswordPresets s ! i)) of
              Inl err \<Rightarrow> Inl err
            | Inr r \<Rightarrow> Inr [r],
            s\<lparr>PasswordPresets := (PasswordPresets s)[i := f (PasswordPresets s ! i)],
              issued := issued s @ [Update PasswordPresetsT]\<rparr>)"
proof -
  have "PasswordPresets s ! i \<in> set (PasswordPresets s)" using assms(2) by simp
  then have "filter (\<lambda>p. p_id p = p_id (PasswordPresets s ! i)) (PasswordPresets s) =
      [PasswordPresets s ! i]"
    using assms(1) by (simp add: filter_key_distinct)
  moreover have "map (\<lambda>p. if p_id p = p_id (PasswordPresets s ! i) then f p else p)
      (PasswordPresets s) = (PasswordPresets s)[i := f (PasswordPresets s ! i)]"
    using assms(1,2) by (rule map_key_update)
  ultimately show ?thesis
    using assms(3)
    by (simp add: update_presets_def issue_def split: sum.splits)
qed

text \<open>The numbers that an accepted update binds are finite.\<close>

lemma updatePreset_schema_bindable:
  assumes "updatePreset_schema raw = Inr input"
  shows "list_all bindable (case u_length input of None \<Rightarrow> [] | Some n \<Rightarrow> [n])"
proof (cases "u_length input")
  case None
  then show ?thesis by simp
next
  case (Some n)
  from assms have obj: "updatePreset_object raw = Inr input"
    by (auto simp: updatePreset_schema_def split: sum.splits if_splits)
  then have "ur_length raw = Some n \<and> is_integer n"
    using Some
    by (auto simp: updatePreset_object_def split: option.splits if_splits)
  then have "bindable n" by (cases n) simp_all
  then show ?thesis using Some by simp
qed

text \<open>
  C5, as amended. In a well-formed store, let \<^verbatim>\<open>updatePreset\<close> succeed for an
  authenticated caller. Then the table held a row \<open>old\<close> with the given id, owned by
  the caller; the call stores the row \<open>w\<close> in the place of \<open>old\<close>, every other row
  staying as it was; \<open>w\<close> has the id, owner and creation time of \<open>old\<close>, the time of
  the update as \<^verbatim>\<open>updatedAt\<close>, and in each other field the supplied value when one
  was supplied and the value of \<open>old\<close> otherwise. The record returned is \<open>w\<close> as read
  back: equal to \<open>w\<close> but for its name, custom symbols and notes, each cut at its first
  \<open>U+0000\<close>.
\<close>

theorem updatePreset_frame:
  assumes "wf_db s" and "requireUser ctx = Inr u"
    and "updatePreset raw ctx e s = (Inr res, s')"
  shows "\<exists>i old w.
           i < length (PasswordPresets s) \<and> PasswordPresets s ! i = old \<and>
           ur_id raw = Some (p_id old) \<and> p_userId old = user_id u \<and>
           res = Some (preset_as_read w) \<and>
           s' = s\<lparr>PasswordPresets := (PasswordPresets s)[i := w],
                  issued := issued s @ [Select PasswordPresetsT, Update PasswordPresetsT]\<rparr> \<and>
           p_id w = p_id old \<and> p_userId w = p_userId old \<and>
           p_createdAt w = p_createdAt old \<and> p_updatedAt w = now e \<and>
           p_name w = (case ur_name raw of None \<Rightarrow> p_name old | Some v \<Rightarrow> v) \<and>
           p_length w = (case ur_length raw of None \<Rightarrow> p_length old | Some v \<Rightarrow> v) \<and>
           p_includeLowercase w =
             (case ur_includeLowercase raw of None \<Rightarrow> p_includeLowercase old | Some v \<Rightarrow> v) \<and>
           p_includeUppercase w =
             (case ur_includeUppercase raw of None \<Rightarrow> p_includeUppercase old | Some v \<Rightarrow> v) \<and>
           p_includeNumbers w =
             (case ur_includeNumbers raw of None \<Rightarrow> p_includeNumbers old | Some v \<Rightarrow> v) \<and>
           p_includeSymbols w =
             (case ur_includeSymbols raw of None \<Rightarrow> p_includeSymbols old | Some v \<Rightarrow> v) \<and>
           p_excludeSimilar w =
             (case ur_excludeSimilar raw of None \<Rightarrow> p_excludeSimilar old | Some v \<Rightarrow> v) \<and>
           p_customSymbols w =
             (case ur_customSymbols raw of None \<Rightarrow> p_customSymbols old | Some v \<Rightarrow> Some v) \<and>
           p_notes w = (case ur_notes raw of None \<Rightarrow> p_notes old | Some v \<Rightarrow> Some v) \<and>
           p_isDefault w =
             (case ur_isDefault raw of None \<Rightarrow> p_isDefault old | Some v \<Rightarrow> v)"
proof -
  from assms(3) obtain input where parsed: "updatePreset_schema raw = Inr input"
    and run: "updatePreset_handler input ctx e s = (Inr res, s')"
    by (auto simp: updatePreset_def split: sum.splits)
  note fields = updatePreset_schema_fields [OF parsed]
  note bound = updatePreset_schema_bindable [OF parsed]
  from run assms(2) obtain found s1 where
    lookup: "getOwnedPreset (u_id input) (user_id u) s = (Inr found, s1)"
    by (auto simp: updatePreset_handler_def split: sum.splits prod.splits)
  from run assms(2) lookup obtain rows where
    upd: "update_presets (case u_length input of None \<Rightarrow> [] | Some n \<Rightarrow> [n])
            (set_values input (now e)) (\<lambda>p. p_id p = u_id input) s1 = (Inr rows, s')"
    and res: "res = first_row rows"
    by (auto simp: updatePreset_handler_def split: prod.splits sum.splits)
  from getOwnedPreset_result [OF lookup]
  obtain owned where owned: "owned \<in> set (PasswordPresets s)" "p_id owned = u_id input"
    "p_userId owned = user_id u"
    and s1: "s1 = s\<lparr>issued := issued s @ [Select PasswordPresetsT]\<rparr>"
    by blast
  from owned(1) obtain i where i: "i < length (PasswordPresets s)"
    "PasswordPresets s ! i = owned"
    by (auto simp: in_set_conv_nth)
  have d: "distinct (map p_id (PasswordPresets s1))" and i1: "i < length (PasswordPresets s1)"
    and at: "PasswordPresets s1 ! i = owned"
    using assms(1) i s1 by (simp_all add: wf_db_def)
  define w where "w = set_values input (now e) owned"
  have "update_presets (case u_length input of None \<Rightarrow> [] | Some n \<Rightarrow> [n])
          (set_values input (now e)) (\<lambda>p. p_id p = u_id input) s1 =
      (case read_preset w of Inl err \<Rightarrow> Inl err | Inr r \<Rightarrow> Inr [r],
       s1\<lparr>PasswordPresets := (PasswordPresets s1)[i := w],
          issued := issued s1 @ [Update PasswordPresetsT]\<rparr>)"
    using update_presets_one [OF d i1 bound, of "set_values input (now e)"] at owned(2)
    by (simp add: w_def)
  with upd have rd: "(case read_preset w of Inl err \<Rightarrow> Inl err | Inr r \<Rightarrow> Inr [r]) =
      Inr rows"
    and s': "s' = s1\<lparr>PasswordPresets := (PasswordPresets s1)[i := w],
                     issued := issued s1 @ [Update PasswordPresetsT]\<rparr>"
    by simp_all
  from rd have "rows = [preset_as_read w]"
    by (auto simp: read_preset_def split: if_splits)
  with res s' s1 have out: "res = Some (preset_as_read w)"
    "s' = s\<lparr>PasswordPresets := (PasswordPresets s)[i := w],
            issued := issued s @ [Select PasswordPresetsT, Update PasswordPresetsT]\<rparr>"
    by (simp_all add: first_row_def)
  have frame: "p_id w = p_id owned" "p_userId w = p_userId owned"
    "p_createdAt w = p_createdAt owned" "p_updatedAt w = now e"
    by (simp_all add: w_def set_values_def)
  have vals: "p_name w = (case ur_name raw of None \<Rightarrow> p_name owned | Some v \<Rightarrow> v)"
    "p_length w = (case ur_length raw of None \<Rightarrow> p_length owned | Some v \<Rightarrow> v)"
    "p_includeLowercase w =
       (case ur_includeLowercase raw of None \<Rightarrow> p_includeLowercase owned | Some v \<Rightarrow> v)"
    "p_includeUppercase w =
       (case ur_includeUppercase raw of None \<Rightarrow> p_includeUppercase owned | Some v \<Rightarrow> v)"
    "p_includeNumbers w =
       (case ur_includeNumbers raw of None \<Rightarrow> p_includeNumbers owned | Some v \<Rightarrow> v)"
    "p_includeSymbols w =
       (case ur_includeSymbols raw of None \<Rightarrow> p_includeSymbols owned | Some v \<Rightarrow> v)"
    "p_excludeSimilar w =
       (case ur_excludeSimilar raw of None \<Rightarrow> p_excludeSimilar owned | Some v \<Rightarrow> v)"
    "p_customSymbols w =
       (case ur_customSymbols raw of None \<Rightarrow> p_customSymbols owned | Some v \<Rightarrow> Some v)"
    "p_notes w = (case ur_notes raw of None \<Rightarrow> p_notes owned | Some v \<Rightarrow> Some v)"
    "p_isDefault w =
       (case ur_isDefault raw of None \<Rightarrow> p_isDefault owned | Some v \<Rightarrow> v)"
    using fields by (simp_all add: w_def set_values_def with_default_def)
  have idraw: "ur_id raw = Some (p_id owned)" using fields owned(2) by simp
  show ?thesis
    using i out frame vals idraw owned(3) by blast
qed

text \<open>
  The update does succeed when the input is valid, the caller owns the row, and the
  length of the row, before the update and after it, can be read back.
\<close>

lemma getOwnedPreset_present:
  assumes "wf_db s" and "r \<in> set (PasswordPresets s)" and "p_userId r = uid"
    and "readable (p_length r)"
  shows "getOwnedPreset (p_id r) uid s =
           (Inr (preset_as_read r), s\<lparr>issued := issued s @ [Select PasswordPresetsT]\<rparr>)"
proof -
  have one: "filter (\<lambda>p. p_id p = p_id r) (PasswordPresets s) = [r]"
    using assms(1,2) by (simp add: wf_db_def filter_key_distinct)
  have "filter (and_filters [\<lambda>p. p_id p = p_id r, \<lambda>p. p_userId p = uid])
          (PasswordPresets s) =
        filter (\<lambda>p. p_userId p = uid) (filter (\<lambda>p. p_id p = p_id r) (PasswordPresets s))"
    by (simp add: and_filters_two conj_commute)
  also have "\<dots> = [r]" using assms(3) by (simp only: one) simp
  finally have "filter (and_filters [\<lambda>p. p_id p = p_id r, \<lambda>p. p_userId p = uid])
      (PasswordPresets s) = [r]" .
  then show ?thesis
    using assms(4)
    by (simp add: getOwnedPreset_def select_presets_def read_preset_def first_row_def
        issue_def)
qed

lemma updatePreset_succeeds:
  assumes "wf_db s" and "updatePreset_schema raw = Inr input"
    and "requireUser ctx = Inr u"
    and "r \<in> set (PasswordPresets s)" and "p_id r = u_id input"
    and "p_userId r = user_id u"
    and "readable (p_length r)"
    and "readable (with_default (p_length r) (u_length input))"
  shows "\<exists>res s'. updatePreset raw ctx e s = (Inr res, s')"
proof -
  let ?s1 = "s\<lparr>issued := issued s @ [Select PasswordPresetsT]\<rparr>"
  have lookup: "getOwnedPreset (u_id input) (user_id u) s = (Inr (preset_as_read r), ?s1)"
    using getOwnedPreset_present [OF assms(1,4,6,7)] assms(5) by simp
  from assms(4) obtain i where i: "i < length (PasswordPresets s)"
    "PasswordPresets s ! i = r"
    by (auto simp: in_set_conv_nth)
  have d: "distinct (map p_id (PasswordPresets ?s1))"
    and i1: "i < length (PasswordPresets ?s1)" and at: "PasswordPresets ?s1 ! i = r"
    using assms(1) i by (simp_all add: wf_db_def)
  have "readable (p_length (set_values input (now e) r))"
    using assms(8) by (simp add: set_values_def)
  then have "read_preset (set_values input (now e) r) =
      Inr (preset_as_read (set_values input (now e) r))"
    by (simp add: read_preset_def)
  then have "\<exists>rows s2. update_presets (case u_length input of None \<Rightarrow> [] | Some n \<Rightarrow> [n])
      (set_values input (now e)) (\<lambda>p. p_id p = u_id input) ?s1 = (Inr rows, s2)"
    using update_presets_one
      [OF d i1 updatePreset_schema_bindable [OF assms(2)], of "set_values input (now e)"]
      at assms(5)
    by simp
  then show ?thesis
    using assms(2,3) lookup
    by (auto simp: updatePreset_def updatePreset_handler_def)
qed

text \<open>
  With a length beyond \<^verbatim>\<open>Number.MAX_SAFE_INTEGER\<close> the update is written and the
  call then fails: here the caller's own preset is given the length \<open>2\<^sup>5\<^sup>3 + 2\<close>.
\<close>

lemma updatePreset_unsafe_length:
  "updatePreset (update_length ''uuid-1'' 9007199254740994) alice_ctx env0 db0 =
     (Inl RangeError,
      db0\<lparr>PasswordPresets :=
            [bobs, wifi\<lparr>p_length := Finite 9007199254740994, p_updatedAt := 2000\<rparr>],
          issued := [Select PasswordPresetsT, Update PasswordPresetsT]\<rparr>)"
  by (simp add: updatePreset_def updatePreset_schema_def updatePreset_object_def
      refine_pred_def updatePreset_handler_def getOwnedPreset_def select_presets_def
      update_presets_def read_preset_def preset_as_read_def cut_at_nul_def
      stored_as_integer_def MAX_SAFE_INTEGER_def first_row_def and_filters_def
      issue_def set_values_def with_default_def requireUser_alice
      update_length_def update_only_id_def db0_def bobs_def wifi_def alice_def env0_def)

theorem updatePreset_frame_witness:
  "wf_db db0 \<and> requireUser alice_ctx = Inr alice \<and>
   updatePreset (update_length ''uuid-1'' 20) alice_ctx env0 db0 =
     (Inr (Some (wifi\<lparr>p_length := Finite 20, p_updatedAt := 2000\<rparr>)),
      db0\<lparr>PasswordPresets := [bobs, wifi\<lparr>p_length := Finite 20, p_updatedAt := 2000\<rparr>],
          issued := [Select PasswordPresetsT, Update PasswordPresetsT]\<rparr>) \<and>
   (\<exists>old w. old \<in> set (PasswordPresets db0) \<and> p_id old = ''uuid-1'' \<and>
      preset_as_read w = wifi\<lparr>p_length := Finite 20, p_updatedAt := 2000\<rparr> \<and>
      p_length w = Finite 20 \<and> p_updatedAt w = 2000 \<and> p_name w = p_name old \<and>
      p_createdAt w = p_createdAt old \<and> p_userId w = p_userId old \<and>
      p_isDefault w = p_isDefault old \<and> p_notes w = p_notes old)"
proof -
  have run: "updatePreset (update_length ''uuid-1'' 20) alice_ctx env0 db0 =
     (Inr (Some (wifi\<lparr>p_length := Finite 20, p_updatedAt := 2000\<rparr>)),
      db0\<lparr>PasswordPresets := [bobs, wifi\<lparr>p_length := Finite 20, p_updatedAt := 2000\<rparr>],
          issued := [Select PasswordPresetsT, Update PasswordPresetsT]\<rparr>)"
    by (simp add: updatePreset_def updatePreset_schema_def updatePreset_object_def
        refine_pred_def updatePreset_handler_def getOwnedPreset_def select_presets_def
        update_presets_def read_preset_def preset_as_read_def cut_at_nul_def
        MAX_SAFE_INTEGER_def first_row_def and_filters_def issue_def set_values_def
        with_default_def requireUser_alice
        update_length_def update_only_id_def db0_def bobs_def wifi_def alice_def env0_def)
  from updatePreset_frame [OF wf_db0 requireUser_alice run]
  obtain i old w where f: "i < length (PasswordPresets db0)"
    "PasswordPresets db0 ! i = old"
    "ur_id (update_length ''uuid-1'' 20) = Some (p_id old)"
    "Some (wifi\<lparr>p_length := Finite 20, p_updatedAt := 2000\<rparr>) = Some (preset_as_read w)"
    "p_updatedAt w = now env0" "p_createdAt w = p_createdAt old"
    "p_userId w = p_userId old"
    "p_name w =
       (case ur_name (update_length ''uuid-1'' 20) of None \<Rightarrow> p_name old | Some v \<Rightarrow> v)"
    "p_length w =
       (case ur_length (update_length ''uuid-1'' 20) of None \<Rightarrow> p_length old | Some v \<Rightarrow> v)"
    "p_notes w =
       (case ur_notes (update_length ''uuid-1'' 20) of None \<Rightarrow> p_notes old
        | Some v \<Rightarrow> Some v)"
    "p_isDefault w =
       (case ur_isDefault (update_length ''uuid-1'' 20) of None \<Rightarrow> p_isDefault old
        | Some v \<Rightarrow> v)"
    by blast
  have "old \<in> set (PasswordPresets db0)" using f(1,2) by (metis nth_mem)
  moreover have "p_id old = ''uuid-1''"
    using f(3) by (simp add: update_length_def update_only_id_def)
  moreover have "preset_as_read w = wifi\<lparr>p_length := Finite 20, p_updatedAt := 2000\<rparr>"
    using f(4) by simp
  moreover have "p_length w = Finite 20" "p_updatedAt w = 2000" "p_name w = p_name old"
    "p_notes w = p_notes old" "p_isDefault w = p_isDefault old"
    using f(5,8-11) by (simp_all add: update_length_def update_only_id_def env0_def)
  ultimately show ?thesis
    using wf_db0 requireUser_alice run f(6,7) by blast
qed

text \<open>
  The claim as it was stated fails for a text that holds a \<open>U+0000\<close>: the update below
  succeeds and stores the supplied name, but the record it returns carries the name
  cut at that character, not the supplied one.
\<close>

theorem updatePreset_frame_counterexample:
  "wf_db db0 \<and> requireUser alice_ctx = Inr alice \<and>
   ur_name (update_name ''uuid-1'' nul_name) = Some nul_name \<and>
   updatePreset (update_name ''uuid-1'' nul_name) alice_ctx env0 db0 =
     (Inr (Some (wifi\<lparr>p_name := ''a'', p_updatedAt := 2000\<rparr>)),
      db0\<lparr>PasswordPresets := [bobs, wifi\<lparr>p_name := nul_name, p_updatedAt := 2000\<rparr>],
          issued := [Select PasswordPresetsT, Update PasswordPresetsT]\<rparr>) \<and>
   p_name (wifi\<lparr>p_name := ''a'', p_updatedAt := 2000\<rparr>) \<noteq> nul_name"
proof -
  have "updatePreset (update_name ''uuid-1'' nul_name) alice_ctx env0 db0 =
     (Inr (Some (wifi\<lparr>p_name := ''a'', p_updatedAt := 2000\<rparr>)),
      db0\<lparr>PasswordPresets := [bobs, wifi\<lparr>p_name := nul_name, p_updatedAt := 2000\<rparr>],
          issued := [Select PasswordPresetsT, Update PasswordPresetsT]\<rparr>)"
    by (simp add: updatePreset_def updatePreset_schema_def updatePreset_object_def
        refine_pred_def updatePreset_handler_def getOwnedPreset_def select_presets_def
        update_presets_def read_preset_def preset_as_read_def cut_at_nul_def
        MAX_SAFE_INTEGER_def first_row_def and_filters_def issue_def set_values_def
        with_default_def requireUser_alice nul_name_def
        update_name_def update_only_id_def db0_def bobs_def wifi_def alice_def env0_def)
  moreover have "ur_name (update_name ''uuid-1'' nul_name) = Some nul_name"
    by (simp add: update_name_def update_only_id_def)
  moreover have "p_name (wifi\<lparr>p_name := ''a'', p_updatedAt := 2000\<rparr>) \<noteq> nul_name"
    by (simp add: nul_name_def)
  ultimately show ?thesis using wf_db0 requireUser_alice by simp
qed

subsection \<open>Listings\<close>

lemma listPresets_run:
  assumes "requireUser ctx = Inr u"
  shows "listPresets \<lparr>lr_defaultsOnly = d\<rparr> ctx s =
           (case read_rows read_preset
                   (filter (\<lambda>p. p_userId p = user_id u \<and>
                                 (with_default False d \<longrightarrow> p_isDefault p))
                      (PasswordPresets s)) of
              Inl err \<Rightarrow> Inl err
            | Inr rows \<Rightarrow> Inr \<lparr>items = rows, total = length rows\<rparr>,
            s\<lparr>issued := issued s @ [Select PasswordPresetsT]\<rparr>)"
  using assms
  by (cases "with_default False d")
    (simp_all add: listPresets_def listPresets_schema_def listPresets_handler_def
      select_presets_def issue_def and_filters_one and_filters_two split: sum.splits)

text \<open>
  C6, as amended. For an authenticated caller and a store in which every preset of the
  caller can be read back (its length is not an integer beyond
  \<^verbatim>\<open>Number.MAX_SAFE_INTEGER\<close> held in the 64-bit range), both calls of
  \<^verbatim>\<open>listPresets\<close> succeed, and the items returned with \<^verbatim>\<open>defaultsOnly = true\<close> are
  the items returned with \<^verbatim>\<open>defaultsOnly = false\<close> that have \<^verbatim>\<open>isDefault = true\<close>,
  in the same order; in particular they are among them. Leaving \<^verbatim>\<open>defaultsOnly\<close>
  out is the same call as \<^verbatim>\<open>defaultsOnly = false\<close>.
\<close>

theorem listPresets_defaultsOnly:
  assumes "requireUser ctx = Inr u"
    and "\<forall>p \<in> set (PasswordPresets s). p_userId p = user_id u \<longrightarrow> readable (p_length p)"
  shows "\<exists>ds s1 al s2.
           listPresets \<lparr>lr_defaultsOnly = Some True\<rparr> ctx s = (Inr ds, s1) \<and>
           listPresets \<lparr>lr_defaultsOnly = Some False\<rparr> ctx s = (Inr al, s2) \<and>
           listPresets \<lparr>lr_defaultsOnly = None\<rparr> ctx s = (Inr al, s2) \<and>
           items ds = filter (\<lambda>p. p_isDefault p = True) (items al) \<and>
           set (items ds) \<subseteq> set (items al)"
proof -
  let ?mine = "filter (\<lambda>p. p_userId p = user_id u) (PasswordPresets s)"
  let ?defaults = "filter (\<lambda>p. p_userId p = user_id u \<and> p_isDefault p) (PasswordPresets s)"
  have all: "read_rows read_preset ?mine = Inr (map preset_as_read ?mine)"
    using assms(2) by (intro read_presets_ok) simp
  have defaults: "read_rows read_preset ?defaults = Inr (map preset_as_read ?defaults)"
    using assms(2) by (intro read_presets_ok) simp
  have "?defaults = filter (\<lambda>p. p_isDefault p) ?mine"
    by (simp add: conj_commute)
  then have "map preset_as_read ?defaults =
      filter (\<lambda>p. p_isDefault p = True) (map preset_as_read ?mine)"
    by (simp add: filter_map comp_def preset_as_read_def)
  then show ?thesis
    using all defaults
    by (auto simp: listPresets_run [OF assms(1)] with_default_def)
qed

theorem listPresets_defaultsOnly_witness:
  "requireUser alice_ctx = Inr alice \<and>
   (\<exists>ds s1 al s2.
      listPresets \<lparr>lr_defaultsOnly = Some True\<rparr> alice_ctx db0 = (Inr ds, s1) \<and>
      listPresets \<lparr>lr_defaultsOnly = Some False\<rparr> alice_ctx db0 = (Inr al, s2) \<and>
      items al = [wifi] \<and> items ds = [])"
proof -
  have readable0: "\<forall>p \<in> set (PasswordPresets db0).
      p_userId p = user_id alice \<longrightarrow> readable (p_length p)"
    by (simp add: db0_def bobs_def wifi_def alice_def MAX_SAFE_INTEGER_def)
  have al: "listPresets \<lparr>lr_defaultsOnly = Some False\<rparr> alice_ctx db0 =
      (Inr \<lparr>items = [wifi], total = 1\<rparr>, db0\<lparr>issued := [Select PasswordPresetsT]\<rparr>)"
    by (simp add: listPresets_run [OF requireUser_alice] with_default_def
        read_preset_def preset_as_read_def cut_at_nul_def MAX_SAFE_INTEGER_def
        db0_def bobs_def wifi_def alice_def)
  from listPresets_defaultsOnly [OF requireUser_alice readable0]
  obtain ds s1 al' s2 where
    f: "listPresets \<lparr>lr_defaultsOnly = Some True\<rparr> alice_ctx db0 = (Inr ds, s1)"
      "listPresets \<lparr>lr_defaultsOnly = Some False\<rparr> alice_ctx db0 = (Inr al', s2)"
      "items ds = filter (\<lambda>p. p_isDefault p = True) (items al')"
    by blast
  from f(2) al have "items al' = [wifi]" by auto
  moreover from this f(3) have "items ds = []" by (simp add: wifi_def)
  ultimately show ?thesis using requireUser_alice f(1,2) by blast
qed

text \<open>
  The claim as it was stated, for every store, fails on the store that a
  \<^verbatim>\<open>createPreset\<close> with the length \<open>2\<^sup>5\<^sup>3\<close> leaves behind. There the caller's
  call with \<^verbatim>\<open>defaultsOnly = true\<close> returns a list, and the same caller's call
  with \<^verbatim>\<open>defaultsOnly = false\<close> returns none: reading the stored row throws.
\<close>

theorem listPresets_defaultsOnly_counterexample:
  "requireUser alice_ctx = Inr alice \<and>
   listPresets \<lparr>lr_defaultsOnly = Some True\<rparr> alice_ctx db_unsafe =
     (Inr \<lparr>items = [], total = 0\<rparr>,
      db_unsafe\<lparr>issued := [Insert PasswordPresetsT, Select PasswordPresetsT]\<rparr>) \<and>
   listPresets \<lparr>lr_defaultsOnly = Some False\<rparr> alice_ctx db_unsafe =
     (Inl RangeError,
      db_unsafe\<lparr>issued := [Insert PasswordPresetsT, Select PasswordPresetsT]\<rparr>)"
  by (simp add: listPresets_run [OF requireUser_alice] with_default_def
      read_preset_def preset_as_read_def cut_at_nul_def stored_as_integer_def
      MAX_SAFE_INTEGER_def requireUser_alice
      db_unsafe_def unsafe_row_def db0_def bobs_def wifi_def alice_def)

text \<open>
  C7. Whenever \<^verbatim>\<open>listPresets\<close> or \<^verbatim>\<open>listGeneratedPasswords\<close> succeeds, the total it
  returns is the number of items it returns.
\<close>

theorem listing_total:
  "(listPresets raw ctx s = (Inr ps, s') \<longrightarrow> total ps = length (items ps)) \<and>
   (listGeneratedPasswords qi ctx' t = (Inr gs, t') \<longrightarrow> total gs = length (items gs))"
  by (auto simp: listPresets_def listPresets_schema_def listPresets_handler_def
      listGeneratedPasswords_def listGeneratedPasswords_schema_def
      listGeneratedPasswords_handler_def Let_def
      split: sum.splits prod.splits option.splits if_splits)

lemma listGeneratedPasswords_unfiltered:
  assumes "requireUser ctx = Inr u" and "lg_presetId qi = None \<or> lg_presetId qi = Some []"
  shows "listGeneratedPasswords qi ctx s =
           (case read_rows read_password
                   (filter (\<lambda>g. g_userId g = user_id u) (GeneratedPasswords s)) of
              Inl err \<Rightarrow> Inl err
            | Inr rows \<Rightarrow> Inr \<lparr>items = rows, total = length rows\<rparr>,
            s\<lparr>issued := issued s @ [Select GeneratedPasswordsT]\<rparr>)"
  using assms
  by (auto simp: listGeneratedPasswords_def listGeneratedPasswords_schema_def
      listGeneratedPasswords_handler_def select_passwords_def issue_def truthy_def
      and_filters_one split: sum.splits)

theorem listing_total_witness:
  "listPresets \<lparr>lr_defaultsOnly = None\<rparr> alice_ctx db0 =
     (Inr \<lparr>items = [wifi], total = 1\<rparr>, db0\<lparr>issued := [Select PasswordPresetsT]\<rparr>) \<and>
   listGeneratedPasswords \<lparr>lg_presetId = None\<rparr> bob_ctx db0 =
     (Inr \<lparr>items = [logged], total = 1\<rparr>, db0\<lparr>issued := [Select GeneratedPasswordsT]\<rparr>) \<and>
   total \<lparr>items = [wifi], total = 1\<rparr> = length (items \<lparr>items = [wifi], total = 1\<rparr>) \<and>
   total \<lparr>items = [logged], total = 1\<rparr> = length (items \<lparr>items = [logged], total = 1\<rparr>)"
proof -
  have bob: "requireUser bob_ctx = Inr \<lparr>user_id = ''bob''\<rparr>"
    by (simp add: requireUser_def bob_ctx_def)
  have r1: "listPresets \<lparr>lr_defaultsOnly = None\<rparr> alice_ctx db0 =
      (Inr \<lparr>items = [wifi], total = 1\<rparr>, db0\<lparr>issued := [Select PasswordPresetsT]\<rparr>)"
    by (simp add: listPresets_run [OF requireUser_alice] with_default_def
        read_preset_def preset_as_read_def cut_at_nul_def MAX_SAFE_INTEGER_def
        db0_def bobs_def wifi_def alice_def)
  have r2: "listGeneratedPasswords \<lparr>lg_presetId = None\<rparr> bob_ctx db0 =
      (Inr \<lparr>items = [logged], total = 1\<rparr>, db0\<lparr>issued := [Select GeneratedPasswordsT]\<rparr>)"
    by (simp add: listGeneratedPasswords_unfiltered [OF bob] read_password_def
        password_as_read_def cut_at_nul_def MAX_SAFE_INTEGER_def db0_def logged_def)
  show ?thesis
    using listing_total [of "\<lparr>lr_defaultsOnly = None\<rparr>" alice_ctx db0
        "\<lparr>items = [wifi], total = 1\<rparr>" "db0\<lparr>issued := [Select PasswordPresetsT]\<rparr>"
        "\<lparr>lg_presetId = None\<rparr>" bob_ctx db0
        "\<lparr>items = [logged], total = 1\<rparr>" "db0\<lparr>issued := [Select GeneratedPasswordsT]\<rparr>"]
      r1 r2
    by simp
qed

subsection \<open>logGeneratedPassword\<close>

lemma insert_password_fresh:
  assumes "case g_length row of None \<Rightarrow> True | Some n \<Rightarrow> bindable n \<and> readable n"
    and "g_id row \<notin> set (map g_id (GeneratedPasswords s))"
    and "case g_presetId row of None \<Rightarrow> True
         | Some pid \<Rightarrow> pid \<in> set (map p_id (PasswordPresets s))"
  shows "insert_password row s =
           (Inr [password_as_read row],
            s\<lparr>GeneratedPasswords := GeneratedPasswords s @ [row],
              issued := issued s @ [Insert GeneratedPasswordsT]\<rparr>)"
  using assms
  by (auto simp: insert_password_def read_password_def issue_def split: option.splits)

lemma insert_password_dangling:
  assumes "case g_length row of None \<Rightarrow> True | Some n \<Rightarrow> bindable n"
    and "g_presetId row = Some pid" and "pid \<notin> set (map p_id (PasswordPresets s))"
  shows "insert_password row s =
           (Inl ConstraintError, s\<lparr>issued := issued s @ [Insert GeneratedPasswordsT]\<rparr>)"
  using assms by (simp add: insert_password_def issue_def Let_def)

lemma insert_password_result:
  "insert_password row s = (Inr rows, s1) \<Longrightarrow>
   rows = [password_as_read row] \<and> GeneratedPasswords s1 = GeneratedPasswords s @ [row]"
  by (auto simp: insert_password_def read_password_def issue_def Let_def split: if_splits)

lemma insert_password_refused:
  "insert_password row s = (Inl err, s1) \<Longrightarrow>
   GeneratedPasswords s1 = GeneratedPasswords s \<or>
   GeneratedPasswords s1 = GeneratedPasswords s @ [row]"
  by (auto simp: insert_password_def read_password_def issue_def Let_def split: if_splits)

text \<open>
  With \<^verbatim>\<open>presetId\<close> unset the ownership check is skipped, and the handler goes
  straight to the insert.
\<close>

lemma logGeneratedPassword_unset:
  assumes "requireUser ctx = Inr u" and "l_presetId input = None"
    and "case l_length input of None \<Rightarrow> True | Some n \<Rightarrow> bindable n"
  shows "logGeneratedPassword input ctx e s =
           (case insert_password
                   \<lparr>g_id = randomUUID e, g_userId = user_id u, g_presetId = None,
                    g_encryptedValue = l_encryptedValue input,
                    g_hintLabel = l_hintLabel input,
                    g_length = l_length input,
                    g_wasCopied = with_default False (l_wasCopied input),
                    g_lastCopiedAt = l_lastCopiedAt input,
                    g_createdAt = now e\<rparr> s of
              (Inl err, s2) \<Rightarrow> (Inl err, s2)
            | (Inr rows, s2) \<Rightarrow> (Inr (first_row rows), s2))"
proof -
  have "case l_length input of None \<Rightarrow> True | Some n \<Rightarrow> z_number n"
    using assms(3) by (cases "l_length input"; cases "the (l_length input)") auto
  then show ?thesis
    using assms(1,2)
    by (simp add: logGeneratedPassword_def logGeneratedPassword_schema_def
        logGeneratedPassword_handler_def)
qed

text \<open>
  C8, as amended. Let the caller be authenticated, let \<^verbatim>\<open>presetId\<close> be unset, let the
  length be unset or a finite number that is not an integer beyond
  \<^verbatim>\<open>Number.MAX_SAFE_INTEGER\<close> held in the 64-bit range, and let the generated id be
  new to the table. Then \<^verbatim>\<open>logGeneratedPassword\<close> succeeds; the one statement it
  issues is the insert, so no ownership lookup is made; the row it appends has a null
  \<^verbatim>\<open>presetId\<close>; and the record it returns, that row as read back, has a null
  \<^verbatim>\<open>presetId\<close>, the generated id, the caller as owner, \<^verbatim>\<open>wasCopied\<close> as supplied
  or else \<open>False\<close>, and the time of the call as \<^verbatim>\<open>createdAt\<close>.
\<close>

theorem log_without_preset:
  assumes "requireUser ctx = Inr u" and "l_presetId input = None"
    and "case l_length input of None \<Rightarrow> True | Some n \<Rightarrow> bindable n \<and> readable n"
    and "randomUUID e \<notin> set (map g_id (GeneratedPasswords s))"
  shows "\<exists>g w. logGeneratedPassword input ctx e s =
                (Inr (Some g), s\<lparr>GeneratedPasswords := GeneratedPasswords s @ [w],
                                  issued := issued s @ [Insert GeneratedPasswordsT]\<rparr>) \<and>
              g = password_as_read w \<and> g_presetId w = None \<and>
              g_presetId g = None \<and> g_id g = randomUUID e \<and> g_userId g = user_id u \<and>
              g_wasCopied g = (case l_wasCopied input of None \<Rightarrow> False | Some b \<Rightarrow> b) \<and>
              g_createdAt g = now e"
proof -
  define w where "w = \<lparr>g_id = randomUUID e, g_userId = user_id u, g_presetId = None,
      g_encryptedValue = l_encryptedValue input,
      g_hintLabel = l_hintLabel input,
      g_length = l_length input,
      g_wasCopied = with_default False (l_wasCopied input),
      g_lastCopiedAt = l_lastCopiedAt input,
      g_createdAt = now e\<rparr>"
  have bind: "case l_length input of None \<Rightarrow> True | Some n \<Rightarrow> bindable n"
    using assms(3) by (simp split: option.splits)
  have "insert_password w s =
      (Inr [password_as_read w],
       s\<lparr>GeneratedPasswords := GeneratedPasswords s @ [w],
         issued := issued s @ [Insert GeneratedPasswordsT]\<rparr>)"
    using assms(3,4) by (intro insert_password_fresh) (simp_all add: w_def)
  then have run: "logGeneratedPassword input ctx e s =
      (Inr (Some (password_as_read w)),
       s\<lparr>GeneratedPasswords := GeneratedPasswords s @ [w],
         issued := issued s @ [Insert GeneratedPasswordsT]\<rparr>)"
    using logGeneratedPassword_unset [OF assms(1,2) bind, of e s]
    by (simp add: w_def first_row_def)
  have "g_presetId w = None" "g_presetId (password_as_read w) = None"
    "g_id (password_as_read w) = randomUUID e"
    "g_userId (password_as_read w) = user_id u"
    "g_wasCopied (password_as_read w) =
       (case l_wasCopied input of None \<Rightarrow> False | Some b \<Rightarrow> b)"
    "g_createdAt (password_as_read w) = now e"
    by (simp_all add: w_def password_as_read_def with_default_def)
  with run show ?thesis by blast
qed

theorem log_without_preset_witness:
  "requireUser alice_ctx = Inr alice \<and> l_presetId (log_with None) = None \<and>
   (\<exists>g. logGeneratedPassword (log_with None) alice_ctx env0 db0 =
           (Inr (Some g), db0\<lparr>GeneratedPasswords := [logged, g],
                               issued := [Insert GeneratedPasswordsT]\<rparr>) \<and>
         g_presetId g = None \<and> g_id g = ''uuid-2'' \<and> g_userId g = ''alice'' \<and>
         \<not> g_wasCopied g \<and> g_createdAt g = 2000)"
proof -
  have fresh: "randomUUID env0 \<notin> set (map g_id (GeneratedPasswords db0))"
    by (simp add: env0_def db0_def logged_def)
  have unset: "l_presetId (log_with None) = None" "l_wasCopied (log_with None) = None"
    by (simp_all add: log_with_def)
  have len: "case l_length (log_with None) of None \<Rightarrow> True
             | Some n \<Rightarrow> bindable n \<and> readable n"
    by (simp add: log_with_def MAX_SAFE_INTEGER_def)
  have given: "GeneratedPasswords db0 = [logged]" "issued db0 = []"
    "randomUUID env0 = ''uuid-2''" "now env0 = 2000" "user_id alice = ''alice''"
    by (simp_all add: db0_def env0_def alice_def)
  from log_without_preset [OF requireUser_alice unset(1) len fresh]
  obtain g w where run: "logGeneratedPassword (log_with None) alice_ctx env0 db0 =
      (Inr (Some g), db0\<lparr>GeneratedPasswords := GeneratedPasswords db0 @ [w],
                          issued := issued db0 @ [Insert GeneratedPasswordsT]\<rparr>)"
    and gw: "g = password_as_read w"
    and props: "g_presetId g = None" "g_id g = randomUUID env0"
      "g_userId g = user_id alice"
      "g_wasCopied g = (case l_wasCopied (log_with None) of None \<Rightarrow> False | Some b \<Rightarrow> b)"
      "g_createdAt g = now env0"
    by blast
  have direct: "logGeneratedPassword (log_with None) alice_ctx env0 db0 =
      (Inr (Some \<lparr>g_id = ''uuid-2'', g_userId = ''alice'', g_presetId = None,
                  g_encryptedValue = Some ''YWJj'', g_hintLabel = None,
                  g_length = Some (Finite 16), g_wasCopied = False,
                  g_lastCopiedAt = None, g_createdAt = 2000\<rparr>),
       db0\<lparr>GeneratedPasswords :=
             [logged, \<lparr>g_id = ''uuid-2'', g_userId = ''alice'', g_presetId = None,
                  g_encryptedValue = Some ''YWJj'', g_hintLabel = None,
                  g_length = Some (Finite 16), g_wasCopied = False,
                  g_lastCopiedAt = None, g_createdAt = 2000\<rparr>],
           issued := [Insert GeneratedPasswordsT]\<rparr>)"
    by (simp add: logGeneratedPassword_def logGeneratedPassword_schema_def
        logGeneratedPassword_handler_def insert_password_def read_password_def
        password_as_read_def cut_at_nul_def first_row_def issue_def with_default_def
        MAX_SAFE_INTEGER_def requireUser_alice log_with_def env0_def db0_def logged_def
        alice_def)
  have "g = \<lparr>g_id = ''uuid-2'', g_userId = ''alice'', g_presetId = None,
             g_encryptedValue = Some ''YWJj'', g_hintLabel = None,
             g_length = Some (Finite 16), g_wasCopied = False,
             g_lastCopiedAt = None, g_createdAt = 2000\<rparr>"
    using run direct by simp
  then show ?thesis
    using direct props requireUser_alice unset given by auto
qed

text \<open>
  The claim as it was stated fails for a length the store cannot hand back. With the
  length \<open>2\<^sup>5\<^sup>3\<close> and \<^verbatim>\<open>presetId\<close> unset, the call of an authenticated caller
  does not succeed: the row is written, and reading it back throws. With an infinite
  length the call fails before anything is written.
\<close>

theorem log_without_preset_counterexample:
  "requireUser alice_ctx = Inr alice \<and> l_presetId log_unsafe = None \<and>
   l_length log_unsafe = Some (Finite 9007199254740992) \<and>
   randomUUID env0 \<notin> set (map g_id (GeneratedPasswords db0)) \<and>
   logGeneratedPassword log_unsafe alice_ctx env0 db0 =
     (Inl RangeError, db0\<lparr>GeneratedPasswords := [logged, unsafe_logged],
                           issued := [Insert GeneratedPasswordsT]\<rparr>)"
  by (simp add: logGeneratedPassword_def logGeneratedPassword_schema_def
      logGeneratedPassword_handler_def insert_password_def read_password_def
      stored_as_integer_def first_row_def issue_def with_default_def
      MAX_SAFE_INTEGER_def requireUser_alice log_unsafe_def log_with_def
      unsafe_logged_def env0_def db0_def logged_def alice_def)

lemma log_infinite_length:
  assumes "requireUser ctx = Inr u" and "l_presetId input = None"
    and "l_length input = Some PosInfinity \<or> l_length input = Some NegInfinity"
  shows "logGeneratedPassword input ctx e s = (Inl RangeError, s)"
  using assms
  by (auto simp: logGeneratedPassword_def logGeneratedPassword_schema_def
      logGeneratedPassword_handler_def insert_password_def)

text \<open>
  C10, as amended. Let the caller be authenticated, \<^verbatim>\<open>presetId\<close> be the empty string
  and the length be unset or finite, in a well-formed store. Then
  \<^verbatim>\<open>logGeneratedPassword\<close> issues the insert and no lookup; the insert carries the
  empty string, which is the id of no preset, and is refused for the foreign key: the
  call fails, no record is created, and both tables are as they were. And
  \<^verbatim>\<open>listGeneratedPasswords\<close> issues its one select and no lookup, and its result is
  the reading of the caller's rows, whatever their \<^verbatim>\<open>presetId\<close>: the same result as
  with \<^verbatim>\<open>presetId\<close> unset.
\<close>

theorem empty_presetId:
  assumes "requireUser ctx = Inr u" and "l_presetId input = Some []"
    and "case l_length input of None \<Rightarrow> True | Some n \<Rightarrow> bindable n"
    and "wf_db s"
  shows "logGeneratedPassword input ctx e s =
           (Inl ConstraintError, s\<lparr>issued := issued s @ [Insert GeneratedPasswordsT]\<rparr>) \<and>
         listGeneratedPasswords \<lparr>lg_presetId = Some []\<rparr> ctx s =
           (case read_rows read_password
                   (filter (\<lambda>g. g_userId g = user_id u) (GeneratedPasswords s)) of
              Inl err \<Rightarrow> Inl err
            | Inr rows \<Rightarrow> Inr \<lparr>items = rows, total = length rows\<rparr>,
            s\<lparr>issued := issued s @ [Select GeneratedPasswordsT]\<rparr>) \<and>
         listGeneratedPasswords \<lparr>lg_presetId = Some []\<rparr> ctx s =
           listGeneratedPasswords \<lparr>lg_presetId = None\<rparr> ctx s"
proof -
  have accepted: "case l_length input of None \<Rightarrow> True | Some n \<Rightarrow> z_number n"
    using assms(3) by (cases "l_length input"; cases "the (l_length input)") auto
  have none: "[] \<notin> set (map p_id (PasswordPresets s))"
    using assms(4) by (simp add: wf_db_def)
  define w where "w = \<lparr>g_id = randomUUID e, g_userId = user_id u,
      g_presetId = l_presetId input,
      g_encryptedValue = l_encryptedValue input,
      g_hintLabel = l_hintLabel input,
      g_length = l_length input,
      g_wasCopied = with_default False (l_wasCopied input),
      g_lastCopiedAt = l_lastCopiedAt input,
      g_createdAt = now e\<rparr>"
  have "insert_password w s =
      (Inl ConstraintError, s\<lparr>issued := issued s @ [Insert GeneratedPasswordsT]\<rparr>)"
    using assms(2,3) none
    by (intro insert_password_dangling [where pid = "[]"]) (simp_all add: w_def)
  then have "logGeneratedPassword input ctx e s =
      (Inl ConstraintError, s\<lparr>issued := issued s @ [Insert GeneratedPasswordsT]\<rparr>)"
    using assms(1,2) accepted
    by (simp add: logGeneratedPassword_def logGeneratedPassword_schema_def
        logGeneratedPassword_handler_def truthy_def w_def)
  then show ?thesis
    using listGeneratedPasswords_unfiltered [OF assms(1), of "\<lparr>lg_presetId = Some []\<rparr>" s]
      listGeneratedPasswords_unfiltered [OF assms(1), of "\<lparr>lg_presetId = None\<rparr>" s]
    by simp
qed

theorem empty_presetId_witness:
  "requireUser bob_ctx = Inr \<lparr>user_id = ''bob''\<rparr> \<and>
   l_presetId (log_with (Some [])) = Some [] \<and> wf_db db0 \<and>
   logGeneratedPassword (log_with (Some [])) bob_ctx env0 db0 =
     (Inl ConstraintError, db0\<lparr>issued := [Insert GeneratedPasswordsT]\<rparr>) \<and>
   listGeneratedPasswords \<lparr>lg_presetId = Some []\<rparr> bob_ctx db0 =
     (Inr \<lparr>items = [logged], total = 1\<rparr>, db0\<lparr>issued := [Select GeneratedPasswordsT]\<rparr>)"
proof -
  have bob: "requireUser bob_ctx = Inr \<lparr>user_id = ''bob''\<rparr>"
    by (simp add: requireUser_def bob_ctx_def)
  have empty: "l_presetId (log_with (Some [])) = Some []" by (simp add: log_with_def)
  have len: "case l_length (log_with (Some [])) of None \<Rightarrow> True | Some n \<Rightarrow> bindable n"
    by (simp add: log_with_def)
  have tables: "GeneratedPasswords db0 = [logged]" "issued db0 = []"
    by (simp_all add: db0_def)
  show ?thesis
    using empty_presetId [OF bob empty len wf_db0, of env0] bob empty wf_db0 tables
    by (simp add: logged_def read_password_def password_as_read_def cut_at_nul_def
        MAX_SAFE_INTEGER_def)
qed

text \<open>
  The claim as it was stated fails on that input: the call of an authenticated caller
  with \<^verbatim>\<open>presetId\<close> the empty string creates no record. The insert is refused, and
  the table of generated passwords is as it was.
\<close>

theorem empty_presetId_counterexample:
  "requireUser alice_ctx = Inr alice \<and> l_presetId (log_with (Some [])) = Some [] \<and>
   randomUUID env0 \<notin> set (map g_id (GeneratedPasswords db0)) \<and>
   logGeneratedPassword (log_with (Some [])) alice_ctx env0 db0 =
     (Inl ConstraintError, db0\<lparr>issued := [Insert GeneratedPasswordsT]\<rparr>) \<and>
   GeneratedPasswords (db0\<lparr>issued := [Insert GeneratedPasswordsT]\<rparr>) = [logged]"
  by (simp add: logGeneratedPassword_def logGeneratedPassword_schema_def
      logGeneratedPassword_handler_def insert_password_def truthy_def
      first_row_def issue_def with_default_def
      requireUser_alice log_with_def env0_def db0_def logged_def bobs_def wifi_def
      alice_def)

subsection \<open>Ownership\<close>

lemma createPreset_owner:
  assumes "requireUser ctx = Inr u" and "createPreset raw ctx e s = (res, s1)"
  shows "(\<forall>r. res = Inr (Some r) \<longrightarrow> p_userId r = user_id u) \<and>
         (\<forall>r \<in> set (PasswordPresets s1) - set (PasswordPresets s). p_userId r = user_id u)"
proof (cases "createPreset_schema raw")
  case (Inl err)
  then show ?thesis using assms(2) by (auto simp: createPreset_def)
next
  case (Inr input)
  define row where "row = \<lparr>p_id = randomUUID e, p_userId = user_id u,
      p_name = c_name input, p_length = c_length input,
      p_includeLowercase = c_includeLowercase input,
      p_includeUppercase = c_includeUppercase input,
      p_includeNumbers = c_includeNumbers input,
      p_includeSymbols = c_includeSymbols input,
      p_excludeSimilar = c_excludeSimilar input,
      p_customSymbols = c_customSymbols input,
      p_notes = c_notes input,
      p_isDefault = with_default False (c_isDefault input),
      p_createdAt = now e, p_updatedAt = now e\<rparr>"
  have owner: "p_userId row = user_id u" by (simp add: row_def)
  obtain out s2 where ins: "insert_preset row s = (out, s2)" by (cases "insert_preset row s")
  have run: "(res, s1) = (case out of Inl err \<Rightarrow> (Inl err, s2)
                                    | Inr rows \<Rightarrow> (Inr (first_row rows), s2))"
    using assms Inr ins
    by (simp add: createPreset_def createPreset_handler_def row_def split: sum.splits)
  show ?thesis
  proof (cases out)
    case (Inl err)
    then have "res = Inl err"
      "PasswordPresets s1 = PasswordPresets s \<or>
       PasswordPresets s1 = PasswordPresets s @ [row]"
      using run insert_preset_refused [of row s err s2] ins by simp_all
    then show ?thesis using owner by auto
  next
    case (Inr rows)
    then have "rows = [preset_as_read row]" "PasswordPresets s2 = PasswordPresets s @ [row]"
      using insert_preset_result [of row s rows s2] ins by simp_all
    then have "res = Inr (Some (preset_as_read row))"
      "PasswordPresets s1 = PasswordPresets s @ [row]"
      using run Inr by (simp_all add: first_row_def)
    then show ?thesis using owner by (auto simp: preset_as_read_def)
  qed
qed

lemma logGeneratedPassword_owner:
  assumes "requireUser ctx = Inr u" and "logGeneratedPassword input ctx e s = (res, s1)"
  shows "(\<forall>g. res = Inr (Some g) \<longrightarrow> g_userId g = user_id u) \<and>
         (\<forall>g \<in> set (GeneratedPasswords s1) - set (GeneratedPasswords s).
            g_userId g = user_id u)"
proof (cases "logGeneratedPassword_schema input")
  case (Inl err)
  then show ?thesis using assms(2) by (auto simp: logGeneratedPassword_def)
next
  case parsed: (Inr input')
  then have same: "input' = input"
    by (simp add: logGeneratedPassword_schema_def split: if_splits)
  define row where "row = \<lparr>g_id = randomUUID e, g_userId = user_id u,
      g_presetId = l_presetId input,
      g_encryptedValue = l_encryptedValue input,
      g_hintLabel = l_hintLabel input,
      g_length = l_length input,
      g_wasCopied = with_default False (l_wasCopied input),
      g_lastCopiedAt = l_lastCopiedAt input,
      g_createdAt = now e\<rparr>"
  have owner: "g_userId row = user_id u" by (simp add: row_def)
  define chk where "chk = (case l_presetId input of
                   None \<Rightarrow> (Inr (), s)
                 | Some pid \<Rightarrow>
                     if truthy pid
                     then (case getOwnedPreset pid (user_id u) s of
                             (Inl err, s1) \<Rightarrow> (Inl err, s1)
                           | (Inr owned, s1) \<Rightarrow> (Inr (), s1))
                     else (Inr (), s))"
  have chk_tables: "GeneratedPasswords (snd chk) = GeneratedPasswords s"
    by (auto simp: chk_def getOwnedPreset_def select_presets_def issue_def
        split: option.splits prod.splits sum.splits)
  obtain c s0 where c: "chk = (c, s0)" by (cases chk)
  have s0: "GeneratedPasswords s0 = GeneratedPasswords s" using chk_tables c by simp
  obtain out s2 where ins: "insert_password row s0 = (out, s2)"
    by (cases "insert_password row s0")
  have run: "(res, s1) = (case c of Inl err \<Rightarrow> (Inl err, s0)
               | Inr _ \<Rightarrow> (case out of Inl err \<Rightarrow> (Inl err, s2)
                                      | Inr rows \<Rightarrow> (Inr (first_row rows), s2)))"
    using assms c ins parsed same
    by (simp add: logGeneratedPassword_def
        logGeneratedPassword_handler_def row_def chk_def split: sum.splits)
  show ?thesis
  proof (cases c)
    case (Inl err)
    then show ?thesis using run s0 by simp
  next
    case ok: (Inr x)
    show ?thesis
    proof (cases out)
      case (Inl err)
      then have "res = Inl err"
        "GeneratedPasswords s1 = GeneratedPasswords s \<or>
         GeneratedPasswords s1 = GeneratedPasswords s @ [row]"
        using run ok insert_password_refused [of row s0 err s2] ins s0 by simp_all
      then show ?thesis using owner by auto
    next
      case (Inr rows)
      then have "rows = [password_as_read row]"
        "GeneratedPasswords s2 = GeneratedPasswords s @ [row]"
        using insert_password_result [of row s0 rows s2] ins s0 by simp_all
      then have "res = Inr (Some (password_as_read row))"
        "GeneratedPasswords s1 = GeneratedPasswords s @ [row]"
        using run ok Inr by (simp_all add: first_row_def)
      then show ?thesis using owner by (auto simp: password_as_read_def)
    qed
  qed
qed

lemma listGeneratedPasswords_owner:
  assumes "requireUser ctx = Inr u" and "listGeneratedPasswords qi ctx s = (Inr gs, s1)"
  shows "\<forall>g \<in> set (items gs). g_userId g = user_id u"
proof (cases "lg_presetId qi = None \<or> lg_presetId qi = Some []")
  case True
  from listGeneratedPasswords_unfiltered [OF assms(1) True, of s] assms(2)
  obtain rows where
    rd: "read_rows read_password
           (filter (\<lambda>g. g_userId g = user_id u) (GeneratedPasswords s)) = Inr rows"
    and it: "items gs = rows"
    by (auto split: sum.splits)
  from read_passwords_result [OF rd] it show ?thesis
    by (auto simp: password_as_read_def)
next
  case False
  then obtain pid where pid: "lg_presetId qi = Some pid" "truthy pid"
    by (cases "lg_presetId qi") (auto simp: truthy_def)
  obtain o1 s0 where look: "getOwnedPreset pid (user_id u) s = (o1, s0)"
    by (cases "getOwnedPreset pid (user_id u) s")
  from assms pid look obtain rows where
    rd: "read_rows read_password
           (filter (\<lambda>g. g_userId g = user_id u \<and> g_presetId g = Some pid)
              (GeneratedPasswords s0)) = Inr rows"
    and it: "items gs = rows"
    by (cases o1)
      (auto simp: listGeneratedPasswords_def listGeneratedPasswords_schema_def
        listGeneratedPasswords_handler_def select_passwords_def and_filters_two
        split: sum.splits)
  from read_passwords_result [OF rd] it show ?thesis
    by (auto simp: password_as_read_def)
qed

lemma listPresets_owner:
  assumes "requireUser ctx = Inr u" and "listPresets raw ctx s = (Inr ps, s1)"
  shows "\<forall>p \<in> set (items ps). p_userId p = user_id u"
proof -
  let ?rows = "filter (\<lambda>p. p_userId p = user_id u \<and>
                 (with_default False (lr_defaultsOnly raw) \<longrightarrow> p_isDefault p))
                 (PasswordPresets s)"
  have "listPresets \<lparr>lr_defaultsOnly = lr_defaultsOnly raw\<rparr> ctx s = (Inr ps, s1)"
    using assms(2) by (cases raw) simp
  then obtain rows where rd: "read_rows read_preset ?rows = Inr rows"
    and it: "items ps = rows"
    by (auto simp: listPresets_run [OF assms(1)] split: sum.splits)
  from read_presets_result [OF rd] have "rows = map preset_as_read ?rows" by simp
  then show ?thesis using it by (auto simp: preset_as_read_def)
qed

text \<open>
  C9. For an authenticated caller, any inputs and any store: a record returned by
  \<^verbatim>\<open>createPreset\<close> or \<^verbatim>\<open>logGeneratedPassword\<close>, and every row that the call added
  to its table, has the caller as its owner; and every item returned by
  \<^verbatim>\<open>listPresets\<close> or \<^verbatim>\<open>listGeneratedPasswords\<close> has the caller as its owner.
\<close>

theorem ownership_scoping:
  assumes "requireUser ctx = Inr u"
  shows "(\<forall>r. fst (createPreset raw ctx e s) = Inr (Some r) \<longrightarrow> p_userId r = user_id u) \<and>
         (\<forall>r \<in> set (PasswordPresets (snd (createPreset raw ctx e s))) -
                 set (PasswordPresets s). p_userId r = user_id u) \<and>
         (\<forall>g. fst (logGeneratedPassword input ctx e s) = Inr (Some g) \<longrightarrow>
                g_userId g = user_id u) \<and>
         (\<forall>g \<in> set (GeneratedPasswords (snd (logGeneratedPassword input ctx e s))) -
                 set (GeneratedPasswords s). g_userId g = user_id u) \<and>
         (\<forall>ps. fst (listPresets lraw ctx s) = Inr ps \<longrightarrow>
                 (\<forall>p \<in> set (items ps). p_userId p = user_id u)) \<and>
         (\<forall>gs. fst (listGeneratedPasswords qi ctx s) = Inr gs \<longrightarrow>
                 (\<forall>g \<in> set (items gs). g_userId g = user_id u))"
proof -
  have c: "createPreset raw ctx e s =
             (fst (createPreset raw ctx e s), snd (createPreset raw ctx e s))"
    and l: "logGeneratedPassword input ctx e s =
             (fst (logGeneratedPassword input ctx e s),
              snd (logGeneratedPassword input ctx e s))"
    by simp_all
  have lp: "\<forall>p \<in> set (items ps). p_userId p = user_id u"
    if "fst (listPresets lraw ctx s) = Inr ps" for ps
    using listPresets_owner [OF assms, of lraw s ps "snd (listPresets lraw ctx s)"] that
    by (metis prod.collapse)
  have lg: "\<forall>g \<in> set (items gs). g_userId g = user_id u"
    if "fst (listGeneratedPasswords qi ctx s) = Inr gs" for gs
    using listGeneratedPasswords_owner
      [OF assms, of qi s gs "snd (listGeneratedPasswords qi ctx s)"] that
    by (metis prod.collapse)
  show ?thesis
    using createPreset_owner [OF assms c] logGeneratedPassword_owner [OF assms l] lp lg
    by blast
qed

theorem ownership_scoping_witness:
  "requireUser alice_ctx = Inr alice \<and>
   (\<exists>r. fst (createPreset create_wifi alice_ctx env0 db0) = Inr (Some r) \<and>
         p_userId r = ''alice'') \<and>
   (\<exists>g. fst (logGeneratedPassword (log_with None) alice_ctx env0 db0) = Inr (Some g) \<and>
         g_userId g = ''alice'') \<and>
   (\<exists>ps. fst (listPresets \<lparr>lr_defaultsOnly = None\<rparr> alice_ctx db0) = Inr ps \<and>
          items ps = [wifi] \<and> (\<forall>p \<in> set (items ps). p_userId p = ''alice''))"
proof -
  note all = ownership_scoping [OF requireUser_alice, of create_wifi env0 db0
      "log_with None" "\<lparr>lr_defaultsOnly = None\<rparr>" "\<lparr>lg_presetId = None\<rparr>"]
  have uid: "user_id alice = ''alice''" by (simp add: alice_def)
  obtain r where r: "fst (createPreset create_wifi alice_ctx env0 db0) = Inr (Some r)"
    by (simp add: createPreset_def createPreset_schema_def createPreset_handler_def
        insert_preset_def read_preset_def first_row_def issue_def with_default_def
        MAX_SAFE_INTEGER_def requireUser_alice create_wifi_def env0_def db0_def
        bobs_def wifi_def)
  have fresh: "randomUUID env0 \<notin> set (map g_id (GeneratedPasswords db0))"
    by (simp add: env0_def db0_def logged_def)
  obtain g where g: "fst (logGeneratedPassword (log_with None) alice_ctx env0 db0) =
      Inr (Some g)"
    by (simp add: logGeneratedPassword_def logGeneratedPassword_schema_def
        logGeneratedPassword_handler_def insert_password_def read_password_def
        first_row_def issue_def MAX_SAFE_INTEGER_def requireUser_alice log_with_def
        env0_def db0_def logged_def)
  have ps: "fst (listPresets \<lparr>lr_defaultsOnly = None\<rparr> alice_ctx db0) =
      Inr \<lparr>items = [wifi], total = 1\<rparr>"
    by (simp add: listPresets_run [OF requireUser_alice] with_default_def
        read_preset_def preset_as_read_def cut_at_nul_def MAX_SAFE_INTEGER_def
        db0_def bobs_def wifi_def alice_def)
  have "p_userId r = ''alice''" using all r uid by simp
  moreover have "g_userId g = ''alice''" using all g uid by simp
  moreover have "\<forall>p \<in> set (items \<lparr>items = [wifi], total = 1\<rparr>). p_userId p = ''alice''"
    using all ps uid by simp
  ultimately show ?thesis using requireUser_alice r g ps by auto
qed

subsection \<open>The well-formedness of the store is kept\<close>

lemma wf_db_empty: "wf_db empty_db"
  by (simp add: wf_db_def empty_db_def)

lemma wf_db_issue [simp]: "wf_db (issue st s) = wf_db s"
  by (simp add: wf_db_def issue_def)

lemma getOwnedPreset_wf: "wf_db (snd (getOwnedPreset pid uid s)) = wf_db s"
  by (simp add: getOwnedPreset_def select_presets_def split: option.splits sum.splits)

lemma insert_preset_wf:
  assumes "wf_db s" and "p_id row \<noteq> []"
  shows "wf_db (snd (insert_preset row s))"
  using assms
  by (auto simp: insert_preset_def issue_def wf_db_def Let_def split: sum.splits)

lemma insert_password_wf: "wf_db (snd (insert_password row s)) = wf_db s"
  by (auto simp: insert_password_def issue_def wf_db_def Let_def split: sum.splits)

lemma update_presets_wf:
  assumes "\<And>p. p_id (f p) = p_id p"
  shows "wf_db (snd (update_presets bound f c t)) = wf_db t"
proof -
  have k: "map p_id (map (\<lambda>p. if c p then f p else p) xs) = map p_id xs" for xs
    by (induction xs) (simp_all add: assms)
  have "PasswordPresets (snd (update_presets bound f c t)) = PasswordPresets t \<or>
        PasswordPresets (snd (update_presets bound f c t)) =
          map (\<lambda>p. if c p then f p else p) (PasswordPresets t)"
    by (simp add: update_presets_def issue_def Let_def split: sum.splits)
  then have "map p_id (PasswordPresets (snd (update_presets bound f c t))) =
             map p_id (PasswordPresets t)"
    using k [of "PasswordPresets t"] by auto
  then show ?thesis unfolding wf_db_def by simp
qed

lemma createPreset_wf:
  assumes "wf_db s" and "randomUUID e \<noteq> []"
  shows "wf_db (snd (createPreset raw ctx e s))"
proof (cases "createPreset_schema raw")
  case (Inl err)
  then show ?thesis using assms(1) by (simp add: createPreset_def)
next
  case (Inr input)
  show ?thesis
  proof (cases "requireUser ctx")
    case (Inl err)
    then show ?thesis
      using Inr assms(1) by (simp add: createPreset_def createPreset_handler_def)
  next
    case u: (Inr u)
    define row where "row = \<lparr>p_id = randomUUID e, p_userId = user_id u,
        p_name = c_name input, p_length = c_length input,
        p_includeLowercase = c_includeLowercase input,
        p_includeUppercase = c_includeUppercase input,
        p_includeNumbers = c_includeNumbers input,
        p_includeSymbols = c_includeSymbols input,
        p_excludeSimilar = c_excludeSimilar input,
        p_customSymbols = c_customSymbols input,
        p_notes = c_notes input,
        p_isDefault = with_default False (c_isDefault input),
        p_createdAt = now e, p_updatedAt = now e\<rparr>"
    obtain out s2 where ins: "insert_preset row s = (out, s2)"
      by (cases "insert_preset row s")
    have "wf_db (snd (insert_preset row s))"
      using assms by (intro insert_preset_wf) (simp_all add: row_def)
    then have "wf_db s2" using ins by simp
    then show ?thesis
      using Inr u ins
      by (cases out) (simp_all add: createPreset_def createPreset_handler_def row_def)
  qed
qed

lemma set_values_id: "p_id (set_values input d p) = p_id p"
  by (simp add: set_values_def)

lemma updatePreset_wf:
  assumes "wf_db s"
  shows "wf_db (snd (updatePreset raw ctx e s))"
proof -
  have "wf_db (snd (updatePreset_handler input ctx e s))" for input
  proof (cases "requireUser ctx")
    case (Inl err)
    then show ?thesis using assms by (simp add: updatePreset_handler_def)
  next
    case (Inr u)
    obtain o1 s1 where g: "getOwnedPreset (u_id input) (user_id u) s = (o1, s1)"
      by (cases "getOwnedPreset (u_id input) (user_id u) s")
    then have "wf_db s1" using getOwnedPreset_wf [of "u_id input" "user_id u" s] assms by simp
    then have upd: "wf_db (snd (update_presets bound (set_values input (now e))
                 (\<lambda>p. p_id p = u_id input) s1))" for bound
      by (simp add: update_presets_wf set_values_id)
    obtain out s2 where run: "update_presets
        (case u_length input of None \<Rightarrow> [] | Some n \<Rightarrow> [n])
        (set_values input (now e)) (\<lambda>p. p_id p = u_id input) s1 = (out, s2)"
      by (cases "update_presets (case u_length input of None \<Rightarrow> [] | Some n \<Rightarrow> [n])
                   (set_values input (now e)) (\<lambda>p. p_id p = u_id input) s1")
    have "wf_db s2"
      using upd [of "case u_length input of None \<Rightarrow> [] | Some n \<Rightarrow> [n]"] run by simp
    then show ?thesis
      using Inr g \<open>wf_db s1\<close> run
      by (cases o1; cases out) (simp_all add: updatePreset_handler_def)
  qed
  then show ?thesis using assms by (simp add: updatePreset_def split: sum.splits)
qed

lemma logGeneratedPassword_wf:
  assumes "wf_db s"
  shows "wf_db (snd (logGeneratedPassword input ctx e s))"
proof -
  have ins: "wf_db (snd (insert_password row t))" if "wf_db t" for row t
    using that by (simp add: insert_password_wf)
  have look: "wf_db (snd (getOwnedPreset pid uid s))" for pid uid
    using assms by (simp add: getOwnedPreset_wf)
  show ?thesis
  proof (cases "logGeneratedPassword_schema input")
    case (Inl err)
    then show ?thesis using assms by (simp add: logGeneratedPassword_def)
  next
    case (Inr input')
    show ?thesis
    proof (cases "requireUser ctx")
      case (Inl err)
      then show ?thesis
        using Inr assms
        by (simp add: logGeneratedPassword_def logGeneratedPassword_handler_def)
    next
      case u: (Inr u)
      define chk where "chk = (case l_presetId input' of
                   None \<Rightarrow> (Inr (), s)
                 | Some pid \<Rightarrow>
                     if truthy pid
                     then (case getOwnedPreset pid (user_id u) s of
                             (Inl err, s1) \<Rightarrow> (Inl err, s1)
                           | (Inr owned, s1) \<Rightarrow> (Inr (), s1))
                     else (Inr (), s))"
      have "wf_db (snd chk)"
        using assms look
        by (auto simp: chk_def split: option.splits prod.splits sum.splits)
          (metis snd_conv)+
      moreover obtain c s0 where c: "chk = (c, s0)" by (cases chk)
      ultimately have s0: "wf_db s0" by simp
      define row where "row = \<lparr>g_id = randomUUID e, g_userId = user_id u,
          g_presetId = l_presetId input',
          g_encryptedValue = l_encryptedValue input',
          g_hintLabel = l_hintLabel input',
          g_length = l_length input',
          g_wasCopied = with_default False (l_wasCopied input'),
          g_lastCopiedAt = l_lastCopiedAt input',
          g_createdAt = now e\<rparr>"
      obtain out s2 where run: "insert_password row s0 = (out, s2)"
        by (cases "insert_password row s0")
      have "wf_db s2" using ins [OF s0, of row] run by simp
      then show ?thesis
        using Inr u c s0 run
        by (cases c; cases out)
          (simp_all add: logGeneratedPassword_def logGeneratedPassword_handler_def
            chk_def row_def)
    qed
  qed
qed

lemma listPresets_wf: "wf_db s \<Longrightarrow> wf_db (snd (listPresets raw ctx s))"
  by (auto simp: listPresets_def listPresets_schema_def listPresets_handler_def
      select_presets_def Let_def split: sum.splits)

lemma listGeneratedPasswords_wf:
  "wf_db s \<Longrightarrow> wf_db (snd (listGeneratedPasswords qi ctx s))"
  by (auto simp: listGeneratedPasswords_def listGeneratedPasswords_schema_def
      listGeneratedPasswords_handler_def select_passwords_def getOwnedPreset_def
      select_presets_def issue_def wf_db_def Let_def
      split: sum.splits option.splits prod.splits if_splits)

text \<open>Every store the actions can build is well-formed.\<close>

lemma reachable_wf: "reachable s \<Longrightarrow> wf_db s"
proof (induction rule: reachable.induct)
  case reachable_empty
  show ?case by (rule wf_db_empty)
next
  case (reachable_createPreset s e raw ctx)
  then show ?case by (simp add: createPreset_wf)
next
  case (reachable_updatePreset s uraw ctx e)
  then show ?case by (simp add: updatePreset_wf)
next
  case (reachable_listPresets s lraw ctx)
  then show ?case by (simp add: listPresets_wf)
next
  case (reachable_logGeneratedPassword s e input ctx)
  then show ?case by (simp add: logGeneratedPassword_wf)
next
  case (reachable_listGeneratedPasswords s qi ctx)
  then show ?case by (simp add: listGeneratedPasswords_wf)
qed

end
